theory Spec2Isabelle
  imports Complex_Main
begin

section \<open>JavaScript values and errors\<close>

text \<open>
  The engine of \<^verbatim>\<open>simulation.js\<close> is embedded function by function. A thrown
  \<^verbatim>\<open>Error\<close> is a value of type \<open>error\<close>; a function that can throw returns
  \<open>error + 'a\<close>. \<open>TypeError\<close> is what JavaScript raises when a property of
  \<^verbatim>\<open>undefined\<close> is read, \<open>RangeError\<close> when an array of negative length is made.
\<close>

datatype error =
    CapacityPeriodsNotPositive
  | TrialsNotPositive
  | LastMinuteKExceedsT
  | PolicyDimensionMismatch int int int int
  | TypeError
  | RangeError

text \<open>
  A matrix cell read, a price and a revenue are JavaScript numbers that are integers here,
  or \<^verbatim>\<open>undefined\<close> (a read past the end of a row), or \<^verbatim>\<open>NaN\<close> (a sum with
  \<^verbatim>\<open>undefined\<close>).
\<close>

datatype jsval = Num int | Undefined | NaN

fun js_add :: "jsval \<Rightarrow> jsval \<Rightarrow> jsval" where
  "js_add (Num a) (Num b) = Num (a + b)"
| "js_add _ _ = NaN"

section \<open>Configuration constants\<close>

definition CONFIG_I :: int where "CONFIG_I = 7"
definition CONFIG_T :: int where "CONFIG_T = 15"
definition PRICE_LOW :: int where "PRICE_LOW = 30000"
definition PRICE_MED :: int where "PRICE_MED = 40000"
definition PRICE_HIGH :: int where "PRICE_HIGH = 50000"
definition DEFAULT_TRIALS :: int where "DEFAULT_TRIALS = 10000"
definition DEFAULT_SEED :: int where "DEFAULT_SEED = 42"

text \<open>
  \<^verbatim>\<open>CONFIG.SALE_PROBABILITIES[price] || 0\<close>: the table has the keys 30000, 40000 and
  50000; every other key, \<^verbatim>\<open>undefined\<close> and \<^verbatim>\<open>NaN\<close> included, gives 0. The
  literals 0.90, 0.80 and 0.40 are doubles; a draw is \<open>k / 2^32\<close> for an integer \<open>k\<close>, and
  for such a draw the comparison with the double and with the exact fraction agree: the
  doubles exceed 9/10, 4/5 and 2/5 by less than \<open>2^-52\<close>, and no integer \<open>k\<close> has
  \<open>9/10 \<le> k / 2^32 < 9/10 + 2^-52\<close>, since \<open>0.9 * 2^32\<close> ends in \<open>.4\<close> (likewise
  \<open>0.8 * 2^32\<close> ends in \<open>.8\<close> and \<open>0.4 * 2^32\<close> in \<open>.4\<close>).
\<close>

fun SALE_PROBABILITIES :: "jsval \<Rightarrow> rat" where
  "SALE_PROBABILITIES (Num p) =
     (if p = 30000 then 9 / 10 else if p = 40000 then 8 / 10 else if p = 50000 then 4 / 10 else 0)"
| "SALE_PROBABILITIES Undefined = 0"
| "SALE_PROBABILITIES NaN = 0"

section \<open>The linear congruential generator\<close>

text \<open>
  \<^verbatim>\<open>class RNG\<close>: the fields \<^verbatim>\<open>a\<close>, \<^verbatim>\<open>c\<close> and \<^verbatim>\<open>m\<close> are constants, so the
  state is the pair of \<^verbatim>\<open>seed\<close> and \<^verbatim>\<open>current\<close>. JavaScript numbers are doubles:
  \<^verbatim>\<open>a * current + c\<close> is computed exactly whenever its absolute value is below
  \<open>2^53\<close>, which holds for every \<open>current\<close> with \<open>|current| \<le> 2^32\<close>, hence for every
  state after the first call and for every seed in that range. For a seed outside it the
  code rounds the product and the sum to doubles (and reaches \<^verbatim>\<open>NaN\<close> from a seed
  beyond the largest double), which the integers of the model do not: there the first
  draw of the model need not be the draw of the code. The operator \<^verbatim>\<open>%\<close> is the
  truncated remainder: its result has the sign of the dividend.
\<close>

record RNG =
  rng_seed :: int
  rng_current :: int

definition RNG_a :: int where "RNG_a = 1664525"
definition RNG_c :: int where "RNG_c = 1013904223"
definition RNG_m :: int where "RNG_m = 4294967296"

definition js_rem :: "int \<Rightarrow> int \<Rightarrow> int" where
  "js_rem x m = (if x < 0 then - ((- x) mod \<bar>m\<bar>) else x mod \<bar>m\<bar>)"

definition RNG_new :: "int \<Rightarrow> RNG" where
  "RNG_new s = \<lparr>rng_seed = s, rng_current = s\<rparr>"

definition rng_next :: "RNG \<Rightarrow> rat \<times> RNG" where
  "rng_next g =
     (let cur = js_rem (RNG_a * rng_current g + RNG_c) RNG_m
      in (of_int cur / of_int RNG_m, g\<lparr>rng_current := cur\<rparr>))"

definition rng_reset :: "RNG \<Rightarrow> RNG" where
  "rng_reset g = g\<lparr>rng_current := rng_seed g\<rparr>"

text \<open>The sequence of the first \<open>n\<close> draws of a generator.\<close>

fun rng_draws :: "nat \<Rightarrow> RNG \<Rightarrow> rat list" where
  "rng_draws 0 g = []"
| "rng_draws (Suc n) g = fst (rng_next g) # rng_draws n (snd (rng_next g))"

section \<open>The policy matrix\<close>

text \<open>
  \<^verbatim>\<open>class PolicyMatrix\<close>. The constructor reads \<^verbatim>\<open>matrix[0].length\<close>, which raises a
  TypeError on an empty matrix. \<^verbatim>\<open>getPrice\<close> guards the two indices with \<^verbatim>\<open>this.I\<close>
  and \<^verbatim>\<open>this.T\<close> and then reads \<^verbatim>\<open>this.matrix[capacityIndex][period]\<close>: a missing
  row makes the second read raise, a row that is too short gives \<^verbatim>\<open>undefined\<close>.
\<close>

record PolicyMatrix =
  pm_matrix :: "int list list"
  pm_I :: int
  pm_T :: int

definition PolicyMatrix_new :: "int list list \<Rightarrow> error + PolicyMatrix" where
  "PolicyMatrix_new m =
     (case m of
        [] \<Rightarrow> Inl TypeError
      | r # _ \<Rightarrow> Inr \<lparr>pm_matrix = m, pm_I = int (length m), pm_T = int (length r)\<rparr>)"

definition getPrice :: "PolicyMatrix \<Rightarrow> int \<Rightarrow> int \<Rightarrow> error + jsval" where
  "getPrice P capacityIndex period =
     (if capacityIndex < 0 \<or> capacityIndex \<ge> pm_I P \<or> period < 0 \<or> period \<ge> pm_T P
      then Inr (Num 0)
      else if nat capacityIndex < length (pm_matrix P)
      then (let row = pm_matrix P ! nat capacityIndex
            in Inr (if nat period < length row then Num (row ! nat period) else Undefined))
      else Inl TypeError)"

section \<open>The state of one trial\<close>

record SimulationState =
  capacity :: int
  revenue :: jsval
  salesCount :: int
  priceHistory :: "jsval list"
  salesHistory :: "bool list"
  revenueHistory :: "jsval list"

definition SimulationState_new :: "int \<Rightarrow> SimulationState" where
  "SimulationState_new initialCapacity =
     \<lparr>capacity = initialCapacity, revenue = Num 0, salesCount = 0,
      priceHistory = [], salesHistory = [], revenueHistory = []\<rparr>"

section \<open>The engine and its configuration\<close>

text \<open>
  The argument of the constructor is an object whose fields may be absent. A field is
  taken with \<^verbatim>\<open>config.x || default\<close>: the default replaces an absent field and also
  the value 0, which is falsy. \<^verbatim>\<open>I\<close> and \<^verbatim>\<open>T\<close> always come from \<^verbatim>\<open>CONFIG\<close>.
\<close>

record raw_config =
  raw_trials :: "int option"
  raw_seed :: "int option"
  raw_lastMinuteK :: "int option"

record config =
  cfg_I :: int
  cfg_T :: int
  cfg_trials :: int
  cfg_seed :: int
  cfg_lastMinuteK :: int

record engine =
  eng_config :: config
  eng_rng :: RNG

fun js_or :: "int option \<Rightarrow> int \<Rightarrow> int" where
  "js_or None d = d"
| "js_or (Some v) d = (if v = 0 then d else v)"

definition validateConfig :: "config \<Rightarrow> error + unit" where
  "validateConfig c =
     (if cfg_I c \<le> 0 \<or> cfg_T c \<le> 0 then Inl CapacityPeriodsNotPositive
      else if cfg_trials c \<le> 0 then Inl TrialsNotPositive
      else if cfg_lastMinuteK c > cfg_T c then Inl LastMinuteKExceedsT
      else Inr ())"

definition SimulationEngine_new :: "raw_config \<Rightarrow> error + engine" where
  "SimulationEngine_new rc =
     (let c = \<lparr>cfg_I = CONFIG_I, cfg_T = CONFIG_T,
                cfg_trials = js_or (raw_trials rc) DEFAULT_TRIALS,
                cfg_seed = js_or (raw_seed rc) DEFAULT_SEED,
                cfg_lastMinuteK = js_or (raw_lastMinuteK rc) 3\<rparr>;
          e = \<lparr>eng_config = c, eng_rng = RNG_new (cfg_seed c)\<rparr>
      in case validateConfig c of Inl err \<Rightarrow> Inl err | Inr _ \<Rightarrow> Inr e)"

section \<open>One trial\<close>

text \<open>
  The body of the loop of \<^verbatim>\<open>_runSingleTrial\<close> for period \<open>t\<close>, on the trial state and
  the generator of the engine. The branch without capacity does not touch the generator.
\<close>

definition trial_step ::
  "PolicyMatrix \<Rightarrow> int \<Rightarrow> SimulationState \<times> RNG \<Rightarrow> error + SimulationState \<times> RNG" where
  "trial_step P t sg =
     (let st = fst sg; g = snd sg in
      if capacity st \<le> 0
      then Inr (st\<lparr>priceHistory := priceHistory st @ [Num 0],
                    salesHistory := salesHistory st @ [False],
                    revenueHistory := revenueHistory st @ [Num 0]\<rparr>, g)
      else
        (case getPrice P (capacity st - 1) t of
           Inl err \<Rightarrow> Inl err
         | Inr price \<Rightarrow>
             (let saleProbability = SALE_PROBABILITIES price;
                  randomValue = fst (rng_next g);
                  g' = snd (rng_next g);
                  sold = (randomValue < saleProbability);
                  st1 = st\<lparr>priceHistory := priceHistory st @ [price],
                            salesHistory := salesHistory st @ [sold]\<rparr>
              in if sold
                 then Inr (st1\<lparr>capacity := capacity st - 1,
                               revenue := js_add (revenue st) price,
                               salesCount := salesCount st + 1,
                               revenueHistory := revenueHistory st @ [price]\<rparr>, g')
                 else Inr (st1\<lparr>revenueHistory := revenueHistory st @ [Num 0]\<rparr>, g'))))"

text \<open>
  The steps of a list of periods applied one after the other, each to the state and the
  generator the one before has left, stopping at an error: what a loop over these periods
  computes. It serves to state what \<^verbatim>\<open>_runSingleTrial\<close> computes as a whole.
\<close>

definition step_result ::
  "PolicyMatrix \<Rightarrow> error + SimulationState \<times> RNG \<Rightarrow> int \<Rightarrow> error + SimulationState \<times> RNG" where
  "step_result P r t = (case r of Inl err \<Rightarrow> Inl err | Inr sg \<Rightarrow> trial_step P t sg)"

definition run_periods ::
  "PolicyMatrix \<Rightarrow> SimulationState \<times> RNG \<Rightarrow> int list \<Rightarrow> error + SimulationState \<times> RNG" where
  "run_periods P sg ts = foldl (step_result P) (Inr sg) ts"

function trial_loop ::
  "PolicyMatrix \<Rightarrow> int \<Rightarrow> int \<Rightarrow> SimulationState \<times> RNG \<Rightarrow> error + SimulationState \<times> RNG" where
  "trial_loop P T t sg =
     (if t < T
      then (case trial_step P t sg of
              Inl err \<Rightarrow> Inl err
            | Inr sg' \<Rightarrow> trial_loop P T (t + 1) sg')
      else Inr sg)"
  by pat_completeness auto
termination
  by (relation "measure (\<lambda>(P, T, t, sg). nat (T - t))") auto

declare trial_loop.simps [simp del]

text \<open>\<^verbatim>\<open>_runSingleTrial(policy, trialId)\<close>: the parameter \<^verbatim>\<open>trialId\<close> is not read.\<close>

definition runSingleTrial ::
  "config \<Rightarrow> PolicyMatrix \<Rightarrow> int \<Rightarrow> RNG \<Rightarrow> error + SimulationState \<times> RNG" where
  "runSingleTrial c P trialId g = trial_loop P (cfg_T c) 0 (SimulationState_new (cfg_I c), g)"

text \<open>The loop over the trials of \<^verbatim>\<open>runSimulation\<close>, with the results pushed so far.\<close>

function trials_loop ::
  "config \<Rightarrow> PolicyMatrix \<Rightarrow> int \<Rightarrow> SimulationState list \<times> RNG
     \<Rightarrow> error + SimulationState list \<times> RNG" where
  "trials_loop c P trialId rg =
     (if trialId < cfg_trials c
      then (case runSingleTrial c P trialId (snd rg) of
              Inl err \<Rightarrow> Inl err
            | Inr sg \<Rightarrow> trials_loop c P (trialId + 1) (fst rg @ [fst sg], snd sg))
      else Inr rg)"
  by pat_completeness auto
termination
  by (relation "measure (\<lambda>(c, P, trialId, rg). nat (cfg_trials c - trialId))") auto

declare trials_loop.simps [simp del]

section \<open>Numbers of the aggregates\<close>

text \<open>
  The aggregates are quotients and a square root. They are modelled by their exact real
  values: the rounding of doubles is left out, the special values are kept. A sum with
  \<^verbatim>\<open>undefined\<close> or \<^verbatim>\<open>NaN\<close> is \<^verbatim>\<open>NaN\<close>, \<^verbatim>\<open>0 / 0\<close> is \<^verbatim>\<open>NaN\<close>, and a
  nonzero number divided by zero is an infinity (the divisors here are array lengths and
  \<^verbatim>\<open>config.I\<close>, never a negative zero).
\<close>

datatype number = Finite real | PosInfinity | NegInfinity | NotANumber

fun to_number :: "jsval \<Rightarrow> number" where
  "to_number (Num a) = Finite (of_int a)"
| "to_number Undefined = NotANumber"
| "to_number NaN = NotANumber"

fun num_add :: "number \<Rightarrow> number \<Rightarrow> number" where
  "num_add (Finite a) (Finite b) = Finite (a + b)"
| "num_add NotANumber _ = NotANumber"
| "num_add _ NotANumber = NotANumber"
| "num_add PosInfinity NegInfinity = NotANumber"
| "num_add NegInfinity PosInfinity = NotANumber"
| "num_add PosInfinity _ = PosInfinity"
| "num_add _ PosInfinity = PosInfinity"
| "num_add NegInfinity _ = NegInfinity"
| "num_add _ NegInfinity = NegInfinity"

fun num_neg :: "number \<Rightarrow> number" where
  "num_neg (Finite a) = Finite (- a)"
| "num_neg PosInfinity = NegInfinity"
| "num_neg NegInfinity = PosInfinity"
| "num_neg NotANumber = NotANumber"

definition num_sub :: "number \<Rightarrow> number \<Rightarrow> number" where
  "num_sub x y = num_add x (num_neg y)"

fun num_div :: "number \<Rightarrow> number \<Rightarrow> number" where
  "num_div (Finite a) (Finite b) =
     (if b \<noteq> 0 then Finite (a / b)
      else if a = 0 then NotANumber
      else if a > 0 then PosInfinity else NegInfinity)"
| "num_div NotANumber _ = NotANumber"
| "num_div _ NotANumber = NotANumber"
| "num_div (Finite a) _ = Finite 0"
| "num_div PosInfinity (Finite b) = (if b < 0 then NegInfinity else PosInfinity)"
| "num_div NegInfinity (Finite b) = (if b < 0 then PosInfinity else NegInfinity)"
| "num_div _ _ = NotANumber"

fun num_square :: "number \<Rightarrow> number" where
  "num_square (Finite a) = Finite (a * a)"
| "num_square NotANumber = NotANumber"
| "num_square _ = PosInfinity"

fun num_sqrt :: "number \<Rightarrow> number" where
  "num_sqrt (Finite a) = (if a < 0 then NotANumber else Finite (sqrt a))"
| "num_sqrt PosInfinity = PosInfinity"
| "num_sqrt _ = NotANumber"

definition mean :: "number list \<Rightarrow> number" where
  "mean arr = num_div (foldl num_add (Finite 0) arr) (Finite (real (length arr)))"

definition std :: "number list \<Rightarrow> number" where
  "std arr = (let mu = mean arr in num_sqrt (mean (map (\<lambda>val. num_square (num_sub val mu)) arr)))"

text \<open>An array read \<^verbatim>\<open>xs[i]\<close>: \<^verbatim>\<open>undefined\<close> outside the array.\<close>

definition js_nth :: "jsval list \<Rightarrow> int \<Rightarrow> jsval" where
  "js_nth xs i = (if 0 \<le> i \<and> nat i < length xs then xs ! nat i else Undefined)"

text \<open>\<^verbatim>\<open>salesHistory[t]\<close> in a condition: \<^verbatim>\<open>undefined\<close> is falsy.\<close>

definition js_sold :: "bool list \<Rightarrow> int \<Rightarrow> bool" where
  "js_sold xs i = (0 \<le> i \<and> nat i < length xs \<and> xs ! nat i)"

section \<open>Aggregates, sample trial and histograms\<close>

record price_counts =
  count_LOW :: nat
  count_MED :: nat
  count_HIGH :: nat

record aggregates =
  avgRevenue :: number
  stdRevenue :: number
  fillRate :: number
  avgPrice :: number
  lastMinuteShare :: number
  priceMix :: price_counts

text \<open>The indices \<open>0 \<le> i < salesHistory.length\<close> of one trial at which a sale occurred.\<close>

definition sold_indices :: "SimulationState \<Rightarrow> int list" where
  "sold_indices st = filter (js_sold (salesHistory st)) [0 .. int (length (salesHistory st)) - 1]"

definition sold_prices :: "SimulationState \<Rightarrow> jsval list" where
  "sold_prices st = map (js_nth (priceHistory st)) (sold_indices st)"

text \<open>
  The sales counted under the key \<open>p\<close> of \<^verbatim>\<open>priceMix\<close> (and of the price histogram):
  a sale at an index inside \<^verbatim>\<open>priceHistory\<close> whose price is \<open>p\<close>.
\<close>

definition count_price :: "int \<Rightarrow> SimulationState list \<Rightarrow> nat" where
  "count_price p trialResults =
     sum_list (map (\<lambda>st. length (filter (\<lambda>i. nat i < length (priceHistory st)
                                              \<and> js_nth (priceHistory st) i = Num p)
                                        (sold_indices st))) trialResults)"

definition price_mix :: "SimulationState list \<Rightarrow> price_counts" where
  "price_mix trialResults =
     \<lparr>count_LOW = count_price 30000 trialResults,
      count_MED = count_price 40000 trialResults,
      count_HIGH = count_price 50000 trialResults\<rparr>"

definition last_minute_periods :: "config \<Rightarrow> int list" where
  "last_minute_periods c = [cfg_T c - cfg_lastMinuteK c .. cfg_T c - 1]"

definition lastMinuteSales :: "config \<Rightarrow> SimulationState list \<Rightarrow> nat" where
  "lastMinuteSales c trialResults =
     sum_list (map (\<lambda>st. length (filter (\<lambda>t. t < int (length (salesHistory st))
                                              \<and> js_sold (salesHistory st) t)
                                        (last_minute_periods c))) trialResults)"

definition totalSales :: "config \<Rightarrow> SimulationState list \<Rightarrow> nat" where
  "totalSales c trialResults =
     sum_list (map (\<lambda>st. length (filter (\<lambda>t. t < int (length (salesHistory st)))
                                        (last_minute_periods c))) trialResults)"

definition calculateAggregates :: "config \<Rightarrow> SimulationState list \<Rightarrow> aggregates" where
  "calculateAggregates c trialResults =
     (let revenues = map (\<lambda>result. to_number (revenue result)) trialResults;
          salesCounts = map (\<lambda>result. Finite (of_int (salesCount result))) trialResults;
          allPrices = concat (map sold_prices trialResults)
      in \<lparr>avgRevenue = mean revenues,
          stdRevenue = std revenues,
          fillRate = num_div (mean salesCounts) (Finite (of_int (cfg_I c))),
          avgPrice = (if length allPrices > 0 then mean (map to_number allPrices) else Finite 0),
          lastMinuteShare =
            (if totalSales c trialResults > 0
             then Finite (real (lastMinuteSales c trialResults) / real (totalSales c trialResults))
             else Finite 0),
          priceMix = price_mix trialResults\<rparr>)"

record trial_step_record =
  step_period :: int
  step_remainingCapacity :: int
  step_price :: jsval
  step_sold :: bool
  step_revenue :: jsval

record sample_trial =
  sample_trialId :: int
  sample_steps :: "trial_step_record list"
  sample_totalRevenue :: jsval

text \<open>\<^verbatim>\<open>revenueHistory[t] || 0.0\<close>: 0, \<^verbatim>\<open>NaN\<close> and \<^verbatim>\<open>undefined\<close> are falsy.\<close>

fun js_or_zero :: "jsval \<Rightarrow> jsval" where
  "js_or_zero (Num a) = Num a"
| "js_or_zero _ = Num 0"

text \<open>\<^verbatim>\<open>_sum\<close> of an array of booleans counts the sales in it (\<^verbatim>\<open>0 + true\<close> is 1).\<close>

definition sum_bool :: "bool list \<Rightarrow> int" where
  "sum_bool xs = int (length (filter id xs))"

definition sample_step :: "config \<Rightarrow> SimulationState \<Rightarrow> int \<Rightarrow> trial_step_record" where
  "sample_step c trialState t =
     \<lparr>step_period = t + 1,
      step_remainingCapacity =
        max 0 (cfg_I c - sum_bool (take (nat (t + 1)) (salesHistory trialState))),
      step_price = js_nth (priceHistory trialState) t,
      step_sold = js_sold (salesHistory trialState) t,
      step_revenue = js_or_zero (js_nth (revenueHistory trialState) t)\<rparr>"

definition createSampleTrial :: "config \<Rightarrow> SimulationState \<Rightarrow> sample_trial" where
  "createSampleTrial c trialState =
     \<lparr>sample_trialId = 0,
      sample_steps = map (sample_step c trialState)
                (filter (\<lambda>t. t < int (length (priceHistory trialState))) [0 .. cfg_T c - 1]),
      sample_totalRevenue = revenue trialState\<rparr>"

definition createPriceHistogram :: "SimulationState list \<Rightarrow> price_counts" where
  "createPriceHistogram trialResults = price_mix trialResults"

text \<open>
  \<^verbatim>\<open>new Array(T).fill(0)\<close> raises a RangeError for a negative \<open>T\<close>; entry \<open>t\<close> counts
  the trials with a sale in period \<open>t\<close>.
\<close>

definition createSalesByPeriodHistogram :: "config \<Rightarrow> SimulationState list \<Rightarrow> nat list" where
  "createSalesByPeriodHistogram c trialResults =
     map (\<lambda>t. length (filter (\<lambda>result. t < min (int (length (salesHistory result))) (cfg_T c)
                                        \<and> js_sold (salesHistory result) t) trialResults))
         [0 .. cfg_T c - 1]"

section \<open>The simulation run\<close>

record SimulationResults =
  res_config :: config
  res_policy :: PolicyMatrix
  res_aggregates :: aggregates
  res_sampleTrial :: sample_trial
  res_priceHistogram :: price_counts
  res_salesByPeriod :: "nat list"

text \<open>
  \<^verbatim>\<open>runSimulation(policy)\<close> on an engine: the result and the engine afterwards, whose
  generator has advanced. With no trial result, \<^verbatim>\<open>trialResults[0]\<close> is \<^verbatim>\<open>undefined\<close>
  and \<^verbatim>\<open>_createSampleTrial\<close> raises a TypeError.
\<close>

definition runSimulation :: "engine \<Rightarrow> PolicyMatrix \<Rightarrow> error + SimulationResults \<times> engine" where
  "runSimulation e policy =
     (let c = eng_config e in
      if pm_I policy \<noteq> cfg_I c \<or> pm_T policy \<noteq> cfg_T c
      then Inl (PolicyDimensionMismatch (pm_I policy) (pm_T policy) (cfg_I c) (cfg_T c))
      else
        (case trials_loop c policy 0 ([], rng_reset (eng_rng e)) of
           Inl err \<Rightarrow> Inl err
         | Inr rg \<Rightarrow>
             (case fst rg of
                [] \<Rightarrow> Inl TypeError
              | first # _ \<Rightarrow>
                  if cfg_T c < 0 then Inl RangeError
                  else Inr (\<lparr>res_config = c, res_policy = policy,
                             res_aggregates = calculateAggregates c (fst rg),
                             res_sampleTrial = createSampleTrial c first,
                             res_priceHistogram = createPriceHistogram (fst rg),
                             res_salesByPeriod = createSalesByPeriodHistogram c (fst rg)\<rparr>,
                            e\<lparr>eng_rng := snd rg\<rparr>))))"

section \<open>The CSV processor\<close>







text \<open>\<^verbatim>\<open>s.split(sep)\<close> for a separator of one character: never an empty array.\<close>

fun split :: "char \<Rightarrow> string \<Rightarrow> string list" where
  "split sep [] = [[]]"
| "split sep (ch # s) =
     (if ch = sep then [] # split sep s
      else (case split sep s of
              [] \<Rightarrow> [[ch]]
            | w # ws \<Rightarrow> (ch # w) # ws))"


definition validValues :: "string list" where
  "validValues = [''LOW'', ''MED'', ''HIGH'', ''30'', ''40'', ''50'', ''$30'', ''$40'', ''$50'']"

definition isValidPriceLevel :: "string \<Rightarrow> bool" where
  "isValidPriceLevel v = (v \<in> set validValues)"

record validation_error =
  err_row :: int
  err_col :: int
  err_value :: string
  err_message :: string

text \<open>Decimal digits of a number, for the template strings of the messages.\<close>

function show_nat :: "nat \<Rightarrow> string" where
  "show_nat n = (if n < 10 then [char_of (48 + n)] else show_nat (n div 10) @ [char_of (48 + n mod 10)])"
  by pat_completeness auto
termination
  by (relation "measure id") auto

declare show_nat.simps [simp del]

definition show_int :: "int \<Rightarrow> string" where
  "show_int i = (if i < 0 then CHR ''-'' # show_nat (nat (- i)) else show_nat (nat i))"

definition row_count_error :: "string list list \<Rightarrow> validation_error" where
  "row_count_error matrix =
     \<lparr>err_row = - 1, err_col = - 1, err_value = [],
      err_message = ''Expected '' @ show_int CONFIG_I @ '' rows, got '' @ show_nat (length matrix)\<rparr>"

definition row_length_error :: "int \<Rightarrow> string list \<Rightarrow> validation_error" where
  "row_length_error i row =
     \<lparr>err_row = i + 1, err_col = - 1, err_value = [],
      err_message = ''Row '' @ show_int (i + 1) @ '': Expected '' @ show_int CONFIG_T
                    @ '' columns, got '' @ show_nat (length row)\<rparr>"

definition cell_error :: "int \<Rightarrow> int \<Rightarrow> string \<Rightarrow> validation_error" where
  "cell_error i j cell =
     \<lparr>err_row = i + 1, err_col = j + 1, err_value = cell,
      err_message = ''Invalid price level: '' @ cell
                    @ ''. Use LOW, MED, HIGH, 30, 40, 50, $30, $40, or $50''\<rparr>"

text \<open>The inner loop over the cells of row \<open>i\<close>, from column \<open>j\<close> on.\<close>

fun check_cells :: "int \<Rightarrow> int \<Rightarrow> string list \<Rightarrow> validation_error list" where
  "check_cells i j [] = []"
| "check_cells i j (cell # rest) =
     (if \<not> isValidPriceLevel cell then [cell_error i j cell] else []) @ check_cells i (j + 1) rest"

text \<open>The outer loop over the rows, from row \<open>i\<close> on.\<close>

fun check_rows :: "int \<Rightarrow> string list list \<Rightarrow> validation_error list" where
  "check_rows i [] = []"
| "check_rows i (row # rest) =
     (if int (length row) \<noteq> CONFIG_T then [row_length_error i row] else [])
     @ check_cells i 0 row @ check_rows (i + 1) rest"

record validation_result =
  valid :: bool
  errors :: "validation_error list"
  dimensions :: "nat \<times> nat"
  matrixPreview :: "string list list"

definition validateMatrix :: "string list list \<Rightarrow> validation_result" where
  "validateMatrix matrix =
     (let errs = (if int (length matrix) \<noteq> CONFIG_I then [row_count_error matrix] else [])
                 @ check_rows 0 matrix
      in \<lparr>valid = (length errs = 0),
          errors = errs,
          dimensions = (length matrix, case matrix of [] \<Rightarrow> 0 | r # _ \<Rightarrow> length r),
          matrixPreview = matrix\<rparr>)"

definition convert_cell :: "string \<Rightarrow> int" where
  "convert_cell cell =
     (if cell = ''LOW'' \<or> cell = ''30'' \<or> cell = ''$30'' then PRICE_LOW
      else if cell = ''MED'' \<or> cell = ''40'' \<or> cell = ''$40'' then PRICE_MED
      else if cell = ''HIGH'' \<or> cell = ''50'' \<or> cell = ''$50'' then PRICE_HIGH
      else 0)"

definition convertToPriceMatrix :: "string list list \<Rightarrow> error + PolicyMatrix" where
  "convertToPriceMatrix matrix = PolicyMatrix_new (map (map convert_cell) matrix)"

section \<open>The optimal benchmark\<close>

text \<open>
  The three price levels with the prices of \<^verbatim>\<open>CONFIG.PRICE_MAPPING\<close> and the sale
  probabilities of \<^verbatim>\<open>CONFIG.SALE_PROBABILITIES\<close>.
\<close>

datatype price_level = LOW | MED | HIGH

fun level_price :: "price_level \<Rightarrow> int" where
  "level_price LOW = PRICE_LOW"
| "level_price MED = PRICE_MED"
| "level_price HIGH = PRICE_HIGH"

definition level_prob :: "price_level \<Rightarrow> real" where
  "level_prob l = of_rat (SALE_PROBABILITIES (Num (level_price l)))"

text \<open>
  Modelled from the spec: the dynamic program of the benchmark
  (\<^verbatim>\<open>backend/sim/dp_benchmark.py\<close>) and the regret it feeds are not among the sources.
  The spec gives the value of offering level \<open>l\<close> with capacity \<open>c\<close> and \<open>r\<close> periods
  remaining as \<open>prob(l) * (price(l) + value(c - 1, r - 1)) + (1 - prob(l)) * value(c, r - 1)\<close>,
  and \<open>value(c, r)\<close> as the maximum over the three levels, with \<open>value(0, r) = 0\<close> and
  \<open>value(c, 0) = 0\<close>.
\<close>

definition level_value :: "real \<Rightarrow> real \<Rightarrow> price_level \<Rightarrow> real" where
  "level_value sold_next unsold_next l =
     level_prob l * (of_int (level_price l) + sold_next) + (1 - level_prob l) * unsold_next"

definition best_value :: "real \<Rightarrow> real \<Rightarrow> real" where
  "best_value sold_next unsold_next =
     max (level_value sold_next unsold_next LOW)
       (max (level_value sold_next unsold_next MED) (level_value sold_next unsold_next HIGH))"

fun optimal_value :: "nat \<Rightarrow> nat \<Rightarrow> real" where
  "optimal_value 0 r = 0"
| "optimal_value (Suc c) 0 = 0"
| "optimal_value (Suc c) (Suc r) = best_value (optimal_value c r) (optimal_value (Suc c) r)"

text \<open>
  Modelled from the spec: backward induction, as a table filled one period at a time. A
  row holds the values for the capacities \<open>0, \<dots>, I\<close> at a number of periods remaining;
  the next row is computed from it, and the benchmark is the entry for capacity \<open>I\<close> of
  the row for \<open>T\<close> periods.
\<close>

fun dp_next :: "real list \<Rightarrow> real list" where
  "dp_next (sold_next # unsold_next # rest) =
     best_value sold_next unsold_next # dp_next (unsold_next # rest)"
| "dp_next _ = []"

fun dp_row :: "nat \<Rightarrow> nat \<Rightarrow> real list" where
  "dp_row I 0 = replicate (Suc I) 0"
| "dp_row I (Suc r) = 0 # dp_next (dp_row I r)"

definition optimal_expected_revenue :: "nat \<Rightarrow> nat \<Rightarrow> real" where
  "optimal_expected_revenue I T = dp_row I T ! I"

text \<open>
  Modelled from the spec: the regret is the benchmark for the shape of the configuration
  minus the simulated average revenue, with no clamping; it is part of the output only
  when requested.
\<close>

definition regret :: "config \<Rightarrow> aggregates \<Rightarrow> number" where
  "regret c agg =
     num_sub (Finite (optimal_expected_revenue (nat (cfg_I c)) (nat (cfg_T c)))) (avgRevenue agg)"

definition simulate ::
  "engine \<Rightarrow> PolicyMatrix \<Rightarrow> bool \<Rightarrow> error + (SimulationResults \<times> number option) \<times> engine" where
  "simulate e policy compute_regret =
     (case runSimulation e policy of
        Inl err \<Rightarrow> Inl err
      | Inr re \<Rightarrow>
          Inr ((fst re,
                if compute_regret then Some (regret (eng_config e) (res_aggregates (fst re)))
                else None),
               snd re))"

text \<open>
  The expected revenue of a policy from capacity \<open>c\<close> with \<open>r\<close> of the \<open>T\<close> periods
  remaining, when each draw is below the sale probability of the offered price with
  exactly that probability: the mean of what the trial step earns. The price is the one
  the trial reads, \<open>getPrice\<close> at capacity index \<open>c - 1\<close> and period \<open>T - r\<close>.
\<close>

definition price_at :: "PolicyMatrix \<Rightarrow> nat \<Rightarrow> nat \<Rightarrow> int" where
  "price_at P c t = (case getPrice P (int c - 1) (int t) of Inr (Num p) \<Rightarrow> p | _ \<Rightarrow> 0)"

fun expected_revenue :: "PolicyMatrix \<Rightarrow> nat \<Rightarrow> nat \<Rightarrow> nat \<Rightarrow> real" where
  "expected_revenue P T 0 r = 0"
| "expected_revenue P T (Suc c) 0 = 0"
| "expected_revenue P T (Suc c) (Suc r) =
     (let p = price_at P (Suc c) (T - Suc r);
          q = real_of_rat (SALE_PROBABILITIES (Num p))
      in q * (of_int p + expected_revenue P T c r) + (1 - q) * expected_revenue P T (Suc c) r)"

text \<open>
  The policy that offers, in every state, a level at which the maximum of the recurrence
  is attained (the first such level in the order LOW, MED, HIGH).
\<close>

definition best_level :: "real \<Rightarrow> real \<Rightarrow> price_level" where
  "best_level sold_next unsold_next =
     (if level_value sold_next unsold_next LOW = best_value sold_next unsold_next then LOW
      else if level_value sold_next unsold_next MED = best_value sold_next unsold_next then MED
      else HIGH)"

definition optimal_policy :: "nat \<Rightarrow> nat \<Rightarrow> PolicyMatrix" where
  "optimal_policy I T =
     \<lparr>pm_matrix =
        map (\<lambda>ci. map (\<lambda>t. level_price (best_level (optimal_value ci (T - Suc t))
                                                     (optimal_value (Suc ci) (T - Suc t))))
                      [0..<T])
            [0..<I],
      pm_I = int I, pm_T = int T\<rparr>"

section \<open>Well-formed policies\<close>

text \<open>
  A policy as \<^verbatim>\<open>convertToPriceMatrix\<close> builds it from a validated grid: made by the
  constructor, every row of the length of the first, every cell one of the three prices.
\<close>

definition canonical_price :: "int \<Rightarrow> bool" where
  "canonical_price p = (p = PRICE_LOW \<or> p = PRICE_MED \<or> p = PRICE_HIGH)"

definition constructed :: "PolicyMatrix \<Rightarrow> bool" where
  "constructed P = (PolicyMatrix_new (pm_matrix P) = Inr P)"

definition rectangular :: "PolicyMatrix \<Rightarrow> bool" where
  "rectangular P = list_all (\<lambda>row. int (length row) = pm_T P) (pm_matrix P)"

definition canonical :: "PolicyMatrix \<Rightarrow> bool" where
  "canonical P = list_all (list_all canonical_price) (pm_matrix P)"

text \<open>The cell \<open>m[i][j]\<close> of a matrix, for a row \<open>i\<close> that exists.\<close>

definition matrix_cell :: "int list list \<Rightarrow> int \<Rightarrow> int \<Rightarrow> jsval" where
  "matrix_cell m i j = js_nth (map Num (m ! nat i)) j"

section \<open>The trace of a trial\<close>

text \<open>
  The state of a trial keeps the histories of prices, sales and revenues. The capacity
  that remains when period \<open>k\<close> begins is the initial capacity less the sales of the
  periods before \<open>k\<close>; \<open>period_ok\<close> collects what holds of period \<open>k\<close> of a trace, and
  \<open>trial_inv\<close> is the invariant of the loop of \<^verbatim>\<open>_runSingleTrial\<close>.
\<close>

definition capacity_before :: "int \<Rightarrow> SimulationState \<Rightarrow> nat \<Rightarrow> int" where
  "capacity_before I st k = I - sum_bool (take k (salesHistory st))"

definition period_ok :: "int \<Rightarrow> SimulationState \<Rightarrow> nat \<Rightarrow> bool" where
  "period_ok I st k =
     (let before = capacity_before I st k;
          price = priceHistory st ! k;
          sold = salesHistory st ! k
      in 0 \<le> before \<and> before \<le> I
         \<and> (sold \<longrightarrow> 0 < before)
         \<and> (before = 0 \<longrightarrow> price = Num 0)
         \<and> (0 < before \<longrightarrow> (\<exists>p. canonical_price p \<and> price = Num p))
         \<and> revenueHistory st ! k = (if sold then price else Num 0))"

definition trial_inv :: "int \<Rightarrow> SimulationState \<Rightarrow> bool" where
  "trial_inv I st =
     (length (priceHistory st) = length (salesHistory st)
      \<and> length (revenueHistory st) = length (salesHistory st)
      \<and> capacity st = I - sum_bool (salesHistory st)
      \<and> 0 \<le> capacity st
      \<and> salesCount st = sum_bool (salesHistory st)
      \<and> (\<forall>k < length (salesHistory st). period_ok I st k))"

text \<open>
  The trace of a trial as \<^verbatim>\<open>_createSampleTrial\<close> builds it from the state: one record a
  period, with the capacity that remains after it. Period \<open>k\<close> of a trace is entered with
  the capacity \<open>I\<close> when \<open>k = 0\<close> and with the capacity that remained after period \<open>k - 1\<close>
  otherwise. \<open>trace_ok\<close> collects the invariants of a trace: \<open>T\<close> records, numbered from
  1; the capacity never negative, never above \<open>I\<close> and never rising; a sale only from a
  positive capacity, lowering it by one; the price 0 without capacity and one of the
  three prices with it; the revenue of a period the price when sold and 0 otherwise.
\<close>

definition entered_with :: "config \<Rightarrow> trial_step_record list \<Rightarrow> nat \<Rightarrow> int" where
  "entered_with c tr k = (if k = 0 then cfg_I c else step_remainingCapacity (tr ! (k - 1)))"

definition trace_ok :: "config \<Rightarrow> trial_step_record list \<Rightarrow> bool" where
  "trace_ok c tr =
     (int (length tr) = cfg_T c
      \<and> (\<forall>k < length tr.
            let before = entered_with c tr k; r = tr ! k
            in step_period r = int k + 1
               \<and> 0 \<le> step_remainingCapacity r
               \<and> step_remainingCapacity r \<le> before
               \<and> before \<le> cfg_I c
               \<and> (step_sold r \<longrightarrow> 0 < before)
               \<and> step_remainingCapacity r = (if step_sold r then before - 1 else before)
               \<and> (before = 0 \<longrightarrow> step_price r = Num 0)
               \<and> (0 < before \<longrightarrow> step_price r \<in> {Num PRICE_LOW, Num PRICE_MED, Num PRICE_HIGH})
               \<and> step_revenue r = (if step_sold r then step_price r else Num 0)))"

section \<open>Example inputs\<close>

text \<open>
  Policies of the fixed shape, seven rows of fifteen prices, with the dimensions the
  constructor gives them, and a configuration as the constructor of the engine builds it.
\<close>

definition all_LOW :: "int list list" where
  "all_LOW = replicate 7 (replicate 15 30000)"

definition all_HIGH :: "int list list" where
  "all_HIGH = replicate 7 (replicate 15 50000)"

definition policy_of :: "int list list \<Rightarrow> PolicyMatrix" where
  "policy_of m = \<lparr>pm_matrix = m, pm_I = 7, pm_T = 15\<rparr>"

text \<open>A matrix whose first six rows have fifteen prices and whose seventh row is empty.\<close>

definition ragged_matrix :: "int list list" where
  "ragged_matrix = replicate 6 (replicate 15 30000) @ [[]]"

definition example_config :: config where
  "example_config = \<lparr>cfg_I = 7, cfg_T = 15, cfg_trials = 2, cfg_seed = 42, cfg_lastMinuteK = 3\<rparr>"

text \<open>
  Grids of cells as \<^verbatim>\<open>parseCSV\<close> returns them: one with a wrong number of rows and an
  unknown cell, the body of LOW cells under a header row, and the same body behind a
  header column.
\<close>

definition bad_grid :: "string list list" where
  "bad_grid = [[''LOW'', ''BAD'']]"



text \<open>
  Aggregates with an average revenue above the benchmark of seven units, which is at most
  seven times the HIGH price.
\<close>

definition overshoot_aggregates :: aggregates where
  "overshoot_aggregates =
     \<lparr>avgRevenue = Finite 400000, stdRevenue = Finite 0, fillRate = Finite 1,
      avgPrice = Finite 50000, lastMinuteShare = Finite 0,
      priceMix = \<lparr>count_LOW = 0, count_MED = 0, count_HIGH = 7\<rparr>\<rparr>"

section \<open>Properties of the generator\<close>

lemma rng_next_seed: "rng_seed (snd (rng_next g)) = rng_seed g"
  by (simp add: rng_next_def Let_def)

text \<open>
  The lemmas on the values of the draws are stated for a current value from 0 to \<open>2^32\<close>,
  where the integer arithmetic of \<open>rng_next\<close> is the arithmetic of the doubles; every
  state after a call is in this range again.
\<close>

lemma rng_next_current_nonneg:
  "0 \<le> rng_current g \<Longrightarrow> rng_current g \<le> RNG_m \<Longrightarrow>
   0 \<le> rng_current (snd (rng_next g)) \<and> rng_current (snd (rng_next g)) < RNG_m"
  by (simp add: rng_next_def Let_def js_rem_def RNG_a_def RNG_c_def RNG_m_def)

lemma rng_next_unit_interval:
  assumes "0 \<le> rng_current g" and "rng_current g \<le> RNG_m"
  shows "0 \<le> fst (rng_next g) \<and> fst (rng_next g) < 1"
proof -
  let ?cur = "rng_current (snd (rng_next g))"
  have c: "0 \<le> ?cur \<and> ?cur < RNG_m" using assms by (rule rng_next_current_nonneg)
  have f: "fst (rng_next g) = of_int ?cur / of_int RNG_m"
    by (simp add: rng_next_def Let_def)
  have m: "(0::rat) < of_int RNG_m" by (simp add: RNG_m_def)
  from c have "(0::rat) \<le> of_int ?cur" and "(of_int ?cur :: rat) < of_int RNG_m"
    by simp_all
  with m f show ?thesis by (simp add: divide_less_eq)
qed

lemma rng_reset_new: "rng_reset g = RNG_new (rng_seed g)"
  by (simp add: rng_reset_def RNG_new_def)

lemma rng_draws_current_nonneg:
  "0 \<le> rng_current g \<Longrightarrow> rng_current g \<le> RNG_m \<Longrightarrow>
   list_all (\<lambda>u. 0 \<le> u \<and> u < 1) (rng_draws n g)"
proof (induction n arbitrary: g)
  case 0
  show ?case by simp
next
  case (Suc n)
  have "0 \<le> rng_current (snd (rng_next g)) \<and> rng_current (snd (rng_next g)) < RNG_m"
    using Suc.prems by (rule rng_next_current_nonneg)
  then have "list_all (\<lambda>u. 0 \<le> u \<and> u < 1) (rng_draws n (snd (rng_next g)))"
    by (intro Suc.IH) simp_all
  with rng_next_unit_interval [OF Suc.prems] show ?case by simp
qed

text \<open>
  C4 (stream generator contract). The claim: for every integer seed every call of
  \<^verbatim>\<open>next()\<close> returns a value in \<open>[0, 1)\<close>. The remainder \<^verbatim>\<open>%\<close> keeps the sign of
  \<^verbatim>\<open>a * current + c\<close>, so a generator seeded with \<open>-1000\<close> returns
  \<open>-650620777 / 2^32\<close> on its first call, a negative draw, which is below every sale
  probability, the probability 0 of an unknown price included. (For a seed from 0 to
  \<open>2^32\<close> the draws are in \<open>[0, 1)\<close>: \<open>rng_draws_current_nonneg\<close>; \<^verbatim>\<open>reset()\<close> gives
  back the freshly seeded generator: \<open>rng_reset_new\<close>.)
\<close>

theorem rng_next_negative_seed:
  "fst (rng_next (RNG_new (- 1000))) = - (650620777 / 4294967296)
   \<and> fst (rng_next (RNG_new (- 1000))) < 0
   \<and> fst (rng_next (RNG_new (- 1000))) < SALE_PROBABILITIES (Num 0)"
  by (simp add: rng_next_def RNG_new_def js_rem_def RNG_a_def RNG_c_def RNG_m_def)

section \<open>Properties of the policy matrix\<close>

lemma PolicyMatrix_new_fields:
  assumes "PolicyMatrix_new m = Inr P"
  shows "pm_matrix P = m" and "pm_I P = int (length m)" and "m \<noteq> []"
    and "pm_T P = int (length (hd m))"
  using assms by (auto simp: PolicyMatrix_new_def split: list.splits)

lemma constructedD:
  assumes "constructed P"
  shows "pm_I P = int (length (pm_matrix P))" and "pm_matrix P \<noteq> []"
    and "pm_T P = int (length (hd (pm_matrix P)))"
  using assms PolicyMatrix_new_fields [of "pm_matrix P" P] by (simp_all add: constructed_def)

lemma getPrice_constructed:
  assumes "constructed P"
  shows "getPrice P ci p =
           Inr (if ci < 0 \<or> pm_I P \<le> ci \<or> p < 0 \<or> pm_T P \<le> p then Num 0
                else if nat p < length (pm_matrix P ! nat ci) then Num (pm_matrix P ! nat ci ! nat p)
                else Undefined)"
  using constructedD(1) [OF assms] by (auto simp: getPrice_def Let_def)

lemma rectangular_row_length:
  assumes "rectangular P" and "constructed P" and "0 \<le> ci" and "ci < pm_I P"
  shows "int (length (pm_matrix P ! nat ci)) = pm_T P"
proof -
  have "nat ci < length (pm_matrix P)" using assms constructedD(1) [of P] by simp
  then have "pm_matrix P ! nat ci \<in> set (pm_matrix P)" by simp
  with assms(1) show ?thesis by (simp add: rectangular_def list_all_iff)
qed

text \<open>
  C10 (total price lookup), as stated: every lookup yields a defined number, also for a
  mis-shaped matrix. The guard of \<^verbatim>\<open>getPrice\<close> uses the number of rows and the length of
  the first row only. For the matrix with six rows of fifteen prices and an empty seventh
  row, the constructor gives the dimensions 7 and 15, which pass the check of
  \<^verbatim>\<open>runSimulation\<close>, and the first lookup of a trial, at capacity index 6 and period 0,
  is inside the guard and reads \<^verbatim>\<open>undefined\<close>, which the trial records as the price
  of the period.
\<close>

theorem getPrice_ragged_undefined:
  "PolicyMatrix_new ragged_matrix = Inr (policy_of ragged_matrix)
   \<and> pm_I (policy_of ragged_matrix) = CONFIG_I \<and> pm_T (policy_of ragged_matrix) = CONFIG_T
   \<and> getPrice (policy_of ragged_matrix) 6 0 = Inr Undefined
   \<and> trial_step (policy_of ragged_matrix) 0 (SimulationState_new 7, RNG_new 42)
       = Inr (\<lparr>capacity = 7, revenue = Num 0, salesCount = 0, priceHistory = [Undefined],
               salesHistory = [False], revenueHistory = [Num 0]\<rparr>,
              \<lparr>rng_seed = 42, rng_current = 1083814273\<rparr>)"
  by (simp add: PolicyMatrix_new_def getPrice_def trial_step_def policy_of_def ragged_matrix_def
      CONFIG_I_def CONFIG_T_def SimulationState_new_def rng_next_def RNG_new_def js_rem_def
      RNG_a_def RNG_c_def RNG_m_def Let_def numeral_eq_Suc nth_append)

text \<open>
  C10, amended. For a policy made by the constructor from a matrix \<open>m\<close>, \<^verbatim>\<open>getPrice\<close>
  never raises: outside \<open>[0, I) \<times> [0, T)\<close>, where \<open>I\<close> is the number of rows and \<open>T\<close> the
  length of the first row, it returns 0; inside, it returns the cell \<open>m[ci][p]\<close> when row
  \<open>ci\<close> has more than \<open>p\<close> cells and \<^verbatim>\<open>undefined\<close> otherwise. When every row has the
  length of the first, every lookup is a number.
\<close>

theorem getPrice_total:
  assumes "PolicyMatrix_new m = Inr P"
  shows "getPrice P ci p =
           Inr (if ci < 0 \<or> pm_I P \<le> ci \<or> p < 0 \<or> pm_T P \<le> p then Num 0
                else if nat p < length (m ! nat ci) then Num (m ! nat ci ! nat p)
                else Undefined)
         \<and> (rectangular P \<longrightarrow> (\<exists>n. getPrice P ci p = Inr (Num n)))"
proof -
  have m: "pm_matrix P = m" using assms by (rule PolicyMatrix_new_fields(1))
  have c: "constructed P" using assms m by (simp add: constructed_def)
  have eq: "getPrice P ci p =
           Inr (if ci < 0 \<or> pm_I P \<le> ci \<or> p < 0 \<or> pm_T P \<le> p then Num 0
                else if nat p < length (m ! nat ci) then Num (m ! nat ci ! nat p)
                else Undefined)"
    using getPrice_constructed [OF c, of ci p] m by simp
  have "\<exists>n. getPrice P ci p = Inr (Num n)" if r: "rectangular P"
  proof (cases "ci < 0 \<or> pm_I P \<le> ci \<or> p < 0 \<or> pm_T P \<le> p")
    case True
    with eq show ?thesis by simp
  next
    case False
    then have "int (length (m ! nat ci)) = pm_T P"
      using rectangular_row_length [OF r c, of ci] m by simp
    with False have "nat p < length (m ! nat ci)" by linarith
    with False eq show ?thesis by simp
  qed
  with eq show ?thesis by blast
qed

theorem getPrice_total_witness:
  "PolicyMatrix_new [[30000, 40000], [50000, 30000]]
     = Inr \<lparr>pm_matrix = [[30000, 40000], [50000, 30000]], pm_I = 2, pm_T = 2\<rparr>
   \<and> rectangular \<lparr>pm_matrix = [[30000, 40000], [50000, 30000]], pm_I = 2, pm_T = 2\<rparr>
   \<and> getPrice \<lparr>pm_matrix = [[30000, 40000], [50000, 30000]], pm_I = 2, pm_T = 2\<rparr> 1 0
       = Inr (Num 50000)
   \<and> getPrice \<lparr>pm_matrix = [[30000, 40000], [50000, 30000]], pm_I = 2, pm_T = 2\<rparr> 2 0
       = Inr (Num 0)"
proof -
  let ?m = "[[30000, 40000], [50000, 30000 :: int]]"
  let ?P = "\<lparr>pm_matrix = ?m, pm_I = 2, pm_T = 2\<rparr>"
  have h: "PolicyMatrix_new ?m = Inr ?P" by (simp add: PolicyMatrix_new_def)
  have r: "rectangular ?P" by (simp add: rectangular_def)
  from getPrice_total [OF h, of 1 0] have a: "getPrice ?P 1 0 = Inr (Num 50000)" by simp
  from getPrice_total [OF h, of 2 0] have b: "getPrice ?P 2 0 = Inr (Num 0)" by simp
  from h r a b show ?thesis by blast
qed

section \<open>Properties of the constructor of the engine\<close>

lemma SimulationEngine_new_config:
  assumes "SimulationEngine_new rc = Inr e"
  shows "cfg_I (eng_config e) = CONFIG_I" and "cfg_T (eng_config e) = CONFIG_T"
    and "0 < cfg_trials (eng_config e)" and "cfg_lastMinuteK (eng_config e) \<le> CONFIG_T"
    and "eng_rng e = RNG_new (cfg_seed (eng_config e))"
  using assms
  by (auto simp: SimulationEngine_new_def validateConfig_def Let_def split: if_splits sum.splits)

lemma SimulationEngine_new_rejects:
  assumes "(\<exists>n. raw_trials rc = Some n \<and> n < 0) \<or> (\<exists>k. raw_lastMinuteK rc = Some k \<and> CONFIG_T < k)"
  shows "SimulationEngine_new rc = Inl TrialsNotPositive
         \<or> SimulationEngine_new rc = Inl LastMinuteKExceedsT"
  using assms
  by (auto simp: SimulationEngine_new_def validateConfig_def Let_def CONFIG_I_def CONFIG_T_def)

text \<open>
  C9 (configuration rejection). The claim: a trials count of 0 is rejected, not replaced
  by a default. \<^verbatim>\<open>_validateConfig\<close> throws "Number of trials must be positive" when
  \<^verbatim>\<open>trials <= 0\<close>, but the constructor has already replaced the falsy 0 by
  \<^verbatim>\<open>DEFAULT_TRIALS\<close> through \<^verbatim>\<open>config.trials || CONFIG.DEFAULT_TRIALS\<close>: the engine is
  built with 10000 trials and no error, although the check rejects a configuration with
  0 trials when it sees one. (A negative trials count and a
  \<^verbatim>\<open>lastMinuteK\<close> above \<open>T\<close> are rejected before any engine exists:
  \<open>SimulationEngine_new_rejects\<close>.)
\<close>

theorem SimulationEngine_new_zero_trials:
  "SimulationEngine_new \<lparr>raw_trials = Some 0, raw_seed = Some 42, raw_lastMinuteK = Some 3\<rparr>
     = Inr \<lparr>eng_config = \<lparr>cfg_I = 7, cfg_T = 15, cfg_trials = 10000, cfg_seed = 42,
                           cfg_lastMinuteK = 3\<rparr>,
            eng_rng = \<lparr>rng_seed = 42, rng_current = 42\<rparr>\<rparr>
   \<and> validateConfig \<lparr>cfg_I = 7, cfg_T = 15, cfg_trials = 0, cfg_seed = 42, cfg_lastMinuteK = 3\<rparr>
     = Inl TrialsNotPositive"
  by (simp add: SimulationEngine_new_def validateConfig_def Let_def CONFIG_I_def CONFIG_T_def
      DEFAULT_TRIALS_def RNG_new_def)

section \<open>Properties of one trial\<close>

lemma getPrice_in_range:
  assumes "constructed P" and "0 \<le> ci" and "ci < pm_I P" and "0 \<le> p" and "p < pm_T P"
  shows "getPrice P ci p = Inr (matrix_cell (pm_matrix P) ci p)"
  using assms getPrice_constructed [OF assms(1), of ci p]
  by (simp add: matrix_cell_def js_nth_def)

lemma matrix_cell_canonical:
  assumes "constructed P" and "rectangular P" and "canonical P"
    and "0 \<le> ci" and "ci < pm_I P" and "0 \<le> p" and "p < pm_T P"
  shows "\<exists>n. canonical_price n \<and> matrix_cell (pm_matrix P) ci p = Num n"
proof -
  let ?row = "pm_matrix P ! nat ci"
  have i: "nat ci < length (pm_matrix P)" using assms constructedD(1) [of P] by simp
  then have r: "?row \<in> set (pm_matrix P)" by simp
  have len: "int (length ?row) = pm_T P"
    using rectangular_row_length [OF assms(2) assms(1) assms(4) assms(5)] .
  with assms have j: "nat p < length ?row" by linarith
  then have "?row ! nat p \<in> set ?row" by simp
  with r assms(3) have "canonical_price (?row ! nat p)"
    by (simp add: canonical_def list_all_iff)
  moreover have "matrix_cell (pm_matrix P) ci p = Num (?row ! nat p)"
    using j assms(6) by (simp add: matrix_cell_def js_nth_def)
  ultimately show ?thesis by blast
qed

lemma sum_bool_snoc: "sum_bool (xs @ [b]) = sum_bool xs + (if b then 1 else 0)"
  by (simp add: sum_bool_def)

lemma sum_bool_bounds: "0 \<le> sum_bool xs \<and> sum_bool xs \<le> int (length xs)"
  by (simp add: sum_bool_def)

lemma sum_bool_take_mono: "sum_bool (take k xs) \<le> sum_bool (take (Suc k) xs)"
  by (cases "k < length xs") (simp_all add: take_Suc_conv_app_nth sum_bool_snoc)

lemma sum_bool_take_le: "sum_bool (take k xs) \<le> sum_bool xs"
proof -
  have "xs = take k xs @ drop k xs" by simp
  then have "sum_bool xs = sum_bool (take k xs) + sum_bool (drop k xs)"
    by (metis filter_append length_append of_nat_add sum_bool_def)
  with sum_bool_bounds [of "drop k xs"] show ?thesis by linarith
qed

lemma canonical_price_nonzero: "canonical_price p \<Longrightarrow> p \<noteq> 0"
  by (auto simp: canonical_price_def PRICE_LOW_def PRICE_MED_def PRICE_HIGH_def)

lemma trial_inv_new: "0 \<le> I \<Longrightarrow> trial_inv I (SimulationState_new I)"
  by (simp add: trial_inv_def SimulationState_new_def sum_bool_def)

lemma period_ok_extend:
  assumes "k < length (salesHistory st)"
    and "length (priceHistory st) = length (salesHistory st)"
    and "length (revenueHistory st) = length (salesHistory st)"
    and "salesHistory st' = salesHistory st @ [b]"
    and "priceHistory st' = priceHistory st @ [x]"
    and "revenueHistory st' = revenueHistory st @ [y]"
  shows "period_ok I st' k = period_ok I st k"
  using assms by (simp add: period_ok_def capacity_before_def nth_append)

lemma period_ok_last:
  assumes "length (priceHistory st) = length (salesHistory st)"
    and "length (revenueHistory st) = length (salesHistory st)"
    and "salesHistory st' = salesHistory st @ [b]"
    and "priceHistory st' = priceHistory st @ [x]"
    and "revenueHistory st' = revenueHistory st @ [y]"
  shows "period_ok I st' (length (salesHistory st)) =
          (let before = I - sum_bool (salesHistory st)
           in 0 \<le> before \<and> before \<le> I \<and> (b \<longrightarrow> 0 < before) \<and> (before = 0 \<longrightarrow> x = Num 0)
              \<and> (0 < before \<longrightarrow> (\<exists>p. canonical_price p \<and> x = Num p))
              \<and> y = (if b then x else Num 0))"
  using assms by (simp add: period_ok_def capacity_before_def nth_append Let_def)


lemma trial_step_no_capacity:
  assumes "capacity st \<le> 0"
  shows "trial_step P t (st, g) =
           Inr (st\<lparr>priceHistory := priceHistory st @ [Num 0],
                    salesHistory := salesHistory st @ [False],
                    revenueHistory := revenueHistory st @ [Num 0]\<rparr>, g)"
  using assms by (simp add: trial_step_def)

lemma trial_step_capacity:
  assumes "constructed P" and "0 < capacity st" and "capacity st \<le> pm_I P"
    and "0 \<le> t" and "t < pm_T P"
  shows "trial_step P t (st, g) =
           (let price = matrix_cell (pm_matrix P) (capacity st - 1) t;
                sold = (fst (rng_next g) < SALE_PROBABILITIES price)
            in Inr (st\<lparr>capacity := (if sold then capacity st - 1 else capacity st),
                        revenue := (if sold then js_add (revenue st) price else revenue st),
                        salesCount := (if sold then salesCount st + 1 else salesCount st),
                        priceHistory := priceHistory st @ [price],
                        salesHistory := salesHistory st @ [sold],
                        revenueHistory := revenueHistory st @ [if sold then price else Num 0]\<rparr>,
                    snd (rng_next g)))"
proof -
  have "getPrice P (capacity st - 1) t = Inr (matrix_cell (pm_matrix P) (capacity st - 1) t)"
    using assms by (intro getPrice_in_range) simp_all
  with assms(2) show ?thesis
    by (simp add: trial_step_def Let_def)
qed

lemma trial_inv_extend:
  assumes inv: "trial_inv I st"
    and sales: "salesHistory st' = salesHistory st @ [b]"
    and prices: "priceHistory st' = priceHistory st @ [x]"
    and revs: "revenueHistory st' = revenueHistory st @ [y]"
    and cap: "capacity st' = (if b then capacity st - 1 else capacity st)"
    and cnt: "salesCount st' = (if b then salesCount st + 1 else salesCount st)"
    and b: "b \<longrightarrow> 0 < capacity st"
    and x0: "capacity st = 0 \<longrightarrow> x = Num 0"
    and x1: "0 < capacity st \<longrightarrow> (\<exists>p. canonical_price p \<and> x = Num p)"
    and y: "y = (if b then x else Num 0)"
  shows "trial_inv I st'"
proof -
  from inv have l1: "length (priceHistory st) = length (salesHistory st)"
    and l2: "length (revenueHistory st) = length (salesHistory st)"
    and c: "capacity st = I - sum_bool (salesHistory st)"
    and c0: "0 \<le> capacity st"
    and sc: "salesCount st = sum_bool (salesHistory st)"
    and ok: "\<And>k. k < length (salesHistory st) \<Longrightarrow> period_ok I st k"
    by (simp_all add: trial_inv_def)
  have I: "capacity st \<le> I" using c sum_bool_bounds [of "salesHistory st"] by linarith
  have last: "period_ok I st' (length (salesHistory st))"
    using period_ok_last [OF l1 l2 sales prices revs, of I] c c0 I b x0 x1 y
    by (simp add: Let_def)
  have old: "period_ok I st' k" if "k < length (salesHistory st)" for k
    using period_ok_extend [OF that l1 l2 sales prices revs, of I] ok [OF that] by simp
  have all: "\<forall>k < length (salesHistory st'). period_ok I st' k"
    using last old sales by (auto simp: less_Suc_eq)
  have "capacity st' = I - sum_bool (salesHistory st')"
    using cap c sales by (simp add: sum_bool_snoc)
  moreover have "0 \<le> capacity st'" using cap c0 b by auto
  moreover have "salesCount st' = sum_bool (salesHistory st')"
    using cnt sc sales by (simp add: sum_bool_snoc)
  ultimately show ?thesis
    using all l1 l2 sales prices revs by (simp add: trial_inv_def)
qed

lemma trial_step_inv:
  assumes "constructed P" and "rectangular P" and "canonical P" and "pm_I P = I"
    and "0 \<le> t" and "t < pm_T P" and inv: "trial_inv I st"
  shows "\<exists>st' g'. trial_step P t (st, g) = Inr (st', g') \<and> trial_inv I st'
           \<and> length (salesHistory st') = Suc (length (salesHistory st))"
proof (cases "capacity st \<le> 0")
  case True
  from inv have c0: "capacity st = 0" using True by (simp add: trial_inv_def)
  let ?st = "st\<lparr>priceHistory := priceHistory st @ [Num 0],
                 salesHistory := salesHistory st @ [False],
                 revenueHistory := revenueHistory st @ [Num 0]\<rparr>"
  have "trial_step P t (st, g) = Inr (?st, g)" using True by (rule trial_step_no_capacity)
  moreover have "trial_inv I ?st"
    by (rule trial_inv_extend [OF inv, of _ False "Num 0" "Num 0"]) (simp_all add: c0)
  ultimately show ?thesis by simp
next
  case False
  then have pos: "0 < capacity st" by simp
  from inv have "capacity st = I - sum_bool (salesHistory st)" by (simp add: trial_inv_def)
  with sum_bool_bounds [of "salesHistory st"] have le: "capacity st \<le> pm_I P"
    using assms(4) by linarith
  let ?price = "matrix_cell (pm_matrix P) (capacity st - 1) t"
  let ?sold = "fst (rng_next g) < SALE_PROBABILITIES ?price"
  let ?st = "st\<lparr>capacity := (if ?sold then capacity st - 1 else capacity st),
                 revenue := (if ?sold then js_add (revenue st) ?price else revenue st),
                 salesCount := (if ?sold then salesCount st + 1 else salesCount st),
                 priceHistory := priceHistory st @ [?price],
                 salesHistory := salesHistory st @ [?sold],
                 revenueHistory := revenueHistory st @ [if ?sold then ?price else Num 0]\<rparr>"
  have step: "trial_step P t (st, g) = Inr (?st, snd (rng_next g))"
    using trial_step_capacity [OF assms(1) pos le assms(5) assms(6), of g]
    by (simp add: Let_def)
  have canon: "\<exists>n. canonical_price n \<and> ?price = Num n"
    using pos le assms(5) assms(6)
    by (intro matrix_cell_canonical [OF assms(1) assms(2) assms(3)]) simp_all
  have "trial_inv I ?st"
    by (rule trial_inv_extend [OF inv, of _ ?sold ?price "if ?sold then ?price else Num 0"])
       (use pos canon in simp_all)
  with step show ?thesis by simp
qed

lemma trial_loop_inv:
  "constructed P \<Longrightarrow> rectangular P \<Longrightarrow> canonical P \<Longrightarrow> pm_I P = I \<Longrightarrow>
   0 \<le> t \<Longrightarrow> T \<le> pm_T P \<Longrightarrow> trial_inv I (fst sg) \<Longrightarrow>
         \<exists>st' g'. trial_loop P T t sg = Inr (st', g') \<and> trial_inv I st'
           \<and> length (salesHistory st') = length (salesHistory (fst sg)) + nat (T - t)"
proof (induction P T t sg rule: trial_loop.induct)
  case (1 P T t sg)
  show ?case
  proof (cases "t < T")
    case False
    obtain st g where "sg = (st, g)" by (cases sg)
    with False "1.prems" show ?thesis by (simp add: trial_loop.simps [of P T t "(st, g)"])
  next
    case True
    obtain st g where sg: "sg = (st, g)" by (cases sg)
    from True "1.prems" have tT: "t < pm_T P" by simp
    from trial_step_inv [OF "1.prems"(1-4) "1.prems"(5) tT, of st g] "1.prems"(7) sg
    obtain st1 g1 where step: "trial_step P t sg = Inr (st1, g1)" and inv1: "trial_inv I st1"
      and len1: "length (salesHistory st1) = Suc (length (salesHistory st))"
      by auto
    have "\<exists>st' g'. trial_loop P T (t + 1) (st1, g1) = Inr (st', g') \<and> trial_inv I st'
           \<and> length (salesHistory st') = length (salesHistory (fst (st1, g1))) + nat (T - (t + 1))"
      using "1.prems" inv1 by (intro "1.IH" [OF True step]) simp_all
    then obtain st' g' where r: "trial_loop P T (t + 1) (st1, g1) = Inr (st', g')"
      and inv': "trial_inv I st'"
      and len': "length (salesHistory st') = length (salesHistory st1) + nat (T - (t + 1))"
      by auto
    have "trial_loop P T t sg = Inr (st', g')"
      using True step r by (simp add: trial_loop.simps [of P T t sg])
    moreover have "length (salesHistory st') = length (salesHistory (fst sg)) + nat (T - t)"
      using len' len1 sg True by (simp add: nat_diff_distrib)
    ultimately show ?thesis using inv' by simp
  qed
qed

lemma trial_step_lengths:
  assumes "constructed P"
  shows "\<exists>st' g'. trial_step P t (st, g) = Inr (st', g')
           \<and> length (priceHistory st') = Suc (length (priceHistory st))
           \<and> length (salesHistory st') = Suc (length (salesHistory st))
           \<and> length (revenueHistory st') = Suc (length (revenueHistory st))"
  using getPrice_constructed [OF assms, of "capacity st - 1" t]
  by (simp add: trial_step_def Let_def)

lemma trial_loop_lengths:
  "constructed P \<Longrightarrow>
   \<exists>st' g'. trial_loop P T t sg = Inr (st', g')
     \<and> length (priceHistory st') = length (priceHistory (fst sg)) + nat (T - t)
     \<and> length (salesHistory st') = length (salesHistory (fst sg)) + nat (T - t)
     \<and> length (revenueHistory st') = length (revenueHistory (fst sg)) + nat (T - t)"
proof (induction P T t sg rule: trial_loop.induct)
  case (1 P T t sg)
  obtain st g where sg: "sg = (st, g)" by (cases sg)
  show ?case
  proof (cases "t < T")
    case False
    with sg show ?thesis by (simp add: trial_loop.simps [of P T t "(st, g)"])
  next
    case True
    from trial_step_lengths [OF "1.prems", of t st g] sg
    obtain st1 g1 where step: "trial_step P t sg = Inr (st1, g1)"
      and l1: "length (priceHistory st1) = Suc (length (priceHistory st))"
              "length (salesHistory st1) = Suc (length (salesHistory st))"
              "length (revenueHistory st1) = Suc (length (revenueHistory st))"
      by auto
    from "1.IH" [OF True step "1.prems"]
    obtain st' g' where r: "trial_loop P T (t + 1) (st1, g1) = Inr (st', g')"
      and l': "length (priceHistory st') = length (priceHistory st1) + nat (T - (t + 1))"
              "length (salesHistory st') = length (salesHistory st1) + nat (T - (t + 1))"
              "length (revenueHistory st') = length (revenueHistory st1) + nat (T - (t + 1))"
      by auto
    have "trial_loop P T t sg = Inr (st', g')"
      using True step r by (simp add: trial_loop.simps [of P T t sg])
    moreover have "Suc (nat (T - (t + 1))) = nat (T - t)" using True by simp
    ultimately show ?thesis using l1 l' sg by auto
  qed
qed

lemma all_LOW_new: "PolicyMatrix_new all_LOW = Inr (policy_of all_LOW)"
  by (simp add: PolicyMatrix_new_def all_LOW_def policy_of_def numeral_eq_Suc)

lemma foldl_step_result_Inl: "foldl (step_result P) (Inl err) ts = Inl err"
  by (induction ts) (simp_all add: step_result_def)

lemma trial_loop_run_periods: "trial_loop P T t sg = run_periods P sg [t .. T - 1]"
proof (induction P T t sg rule: trial_loop.induct)
  case (1 P T t sg)
  show ?case
  proof (cases "t < T")
    case False
    then have "[t .. T - 1] = []" by simp
    with False show ?thesis by (simp add: trial_loop.simps [of P T t sg] run_periods_def)
  next
    case True
    then have u: "[t .. T - 1] = t # [t + 1 .. T - 1]" by (simp add: upto_rec1)
    show ?thesis
    proof (cases "trial_step P t sg")
      case (Inl err)
      with True u show ?thesis
        by (simp add: trial_loop.simps [of P T t sg] run_periods_def step_result_def
            foldl_step_result_Inl)
    next
      case (Inr sg')
      with True u "1.IH" [OF True Inr] show ?thesis
        by (simp add: trial_loop.simps [of P T t sg] run_periods_def step_result_def)
    qed
  qed
qed

lemma run_periods_snoc:
  assumes "0 \<le> k"
  shows "run_periods P sg [0 .. k] = step_result P (run_periods P sg [0 .. k - 1]) k"
proof -
  from assms have "[0 .. k] = [0 .. k - 1] @ [k]" by (simp add: upto_rec2)
  then show ?thesis by (simp add: run_periods_def)
qed

lemma trial_step_bounds:
  assumes "constructed P" and "0 \<le> capacity st" and "capacity st \<le> pm_I P"
    and "0 \<le> t" and "t < pm_T P"
  shows "\<exists>st' g'. trial_step P t (st, g) = Inr (st', g')
           \<and> 0 \<le> capacity st' \<and> capacity st' \<le> capacity st
           \<and> length (priceHistory st') = Suc (length (priceHistory st))
           \<and> length (salesHistory st') = Suc (length (salesHistory st))
           \<and> length (revenueHistory st') = Suc (length (revenueHistory st))"
proof (cases "capacity st \<le> 0")
  case True
  with assms(2) trial_step_no_capacity [OF True, of P t g] show ?thesis by simp
next
  case False
  then have pos: "0 < capacity st" by simp
  show ?thesis
    using trial_step_capacity [OF assms(1) pos assms(3,4,5), of g] pos
    by (simp add: Let_def)
qed

lemma run_periods_prefix:
  assumes "constructed P" and "0 \<le> I" and "I \<le> pm_I P"
  shows "int n \<le> pm_T P \<Longrightarrow>
         \<exists>st g'. run_periods P (SimulationState_new I, g) [0 .. int n - 1] = Inr (st, g')
           \<and> 0 \<le> capacity st \<and> capacity st \<le> I
           \<and> length (priceHistory st) = n
           \<and> length (salesHistory st) = n
           \<and> length (revenueHistory st) = n"
proof (induction n)
  case 0
  show ?case using assms(2) by (simp add: run_periods_def SimulationState_new_def)
next
  case (Suc n)
  then obtain st g1 where r: "run_periods P (SimulationState_new I, g) [0 .. int n - 1] = Inr (st, g1)"
    and c: "0 \<le> capacity st" "capacity st \<le> I"
    and l: "length (priceHistory st) = n" "length (salesHistory st) = n"
           "length (revenueHistory st) = n"
    by auto
  have t: "int n < pm_T P" using Suc.prems by simp
  from c assms(3) have c': "capacity st \<le> pm_I P" by simp
  from trial_step_bounds [OF assms(1) c(1) c' _ t, of g1]
  obtain st' g' where s: "trial_step P (int n) (st, g1) = Inr (st', g')"
    and b: "0 \<le> capacity st'" "capacity st' \<le> capacity st"
    and l': "length (priceHistory st') = Suc (length (priceHistory st))"
            "length (salesHistory st') = Suc (length (salesHistory st))"
            "length (revenueHistory st') = Suc (length (revenueHistory st))"
    by auto
  have "run_periods P (SimulationState_new I, g) [0 .. int (Suc n) - 1] = Inr (st', g')"
    using run_periods_snoc [of "int n" P "(SimulationState_new I, g)"] r s
    by (simp add: step_result_def)
  with b c l l' show ?case by auto
qed

lemma all_LOW_periods:
  "run_periods (policy_of all_LOW) (SimulationState_new (cfg_I example_config), RNG_new 42)
     [0 .. cfg_T example_config - 1]
   = Inr (\<lparr>capacity = 0, revenue = Num 210000, salesCount = 7,
           priceHistory = [Num 30000, Num 30000, Num 30000, Num 30000, Num 30000, Num 30000,
                           Num 30000, Num 0, Num 0, Num 0, Num 0, Num 0, Num 0, Num 0, Num 0],
           salesHistory = [True, True, True, True, True, True, True, False, False, False,
                           False, False, False, False, False],
           revenueHistory = [Num 30000, Num 30000, Num 30000, Num 30000, Num 30000,
                             Num 30000, Num 30000, Num 0, Num 0, Num 0, Num 0, Num 0, Num 0,
                             Num 0, Num 0]\<rparr>,
          \<lparr>rng_seed = 42, rng_current = 1921058495\<rparr>)"
  by code_simp

text \<open>
  C2 (single-trial step semantics). For a policy made by the constructor whose dimensions
  pass the check of \<^verbatim>\<open>runSimulation\<close>, a capacity between 0 and \<open>I\<close> and a period
  \<open>t\<close> with \<open>0 \<le> t < T\<close>: with no capacity the step records price 0, no sale and revenue
  0, and leaves capacity and generator as they are; otherwise the price is the cell
  \<open>m[capacity - 1][t]\<close>, one draw \<open>u\<close> is taken from the generator, the sale occurs
  exactly when \<open>u\<close> is below the sale probability of the price, a sale lowers the capacity
  by one and earns the price, and no sale earns 0. A trial returns with exactly \<open>T\<close>
  entries in each history. The trial starts from the capacity \<open>I\<close>, no revenue, no sale
  and empty histories, and is the steps of the periods \<open>0, 1, \<dots>, T - 1\<close> in this order,
  each applied to the state and the generator that the period before has left: before
  every period \<open>k\<close> the \<open>k\<close> periods run so far have left a state with \<open>k\<close> entries in
  each history and a capacity between 0 and \<open>I\<close>, so that the step is the one described,
  and the state after period \<open>k\<close> is the step of period \<open>k\<close> on it.
\<close>

theorem trial_step_semantics:
  assumes "PolicyMatrix_new m = Inr P"
    and "pm_I P = cfg_I c" and "pm_T P = cfg_T c"
    and "0 \<le> capacity st" and "capacity st \<le> cfg_I c"
    and "0 \<le> t" and "t < cfg_T c"
  shows "trial_step P t (st, g) =
           (if capacity st = 0
            then Inr (st\<lparr>priceHistory := priceHistory st @ [Num 0],
                         salesHistory := salesHistory st @ [False],
                         revenueHistory := revenueHistory st @ [Num 0]\<rparr>, g)
            else
              (let price = matrix_cell m (capacity st - 1) t;
                   u = fst (rng_next g);
                   sold = (u < SALE_PROBABILITIES price)
               in Inr (st\<lparr>capacity := (if sold then capacity st - 1 else capacity st),
                           revenue := (if sold then js_add (revenue st) price else revenue st),
                           salesCount := (if sold then salesCount st + 1 else salesCount st),
                           priceHistory := priceHistory st @ [price],
                           salesHistory := salesHistory st @ [sold],
                           revenueHistory := revenueHistory st @ [if sold then price else Num 0]\<rparr>,
                       snd (rng_next g))))
         \<and> (\<exists>st' g'. runSingleTrial c P trialId g = Inr (st', g')
               \<and> int (length (priceHistory st')) = cfg_T c
               \<and> int (length (salesHistory st')) = cfg_T c
               \<and> int (length (revenueHistory st')) = cfg_T c)
         \<and> SimulationState_new (cfg_I c)
             = \<lparr>capacity = cfg_I c, revenue = Num 0, salesCount = 0,
                priceHistory = [], salesHistory = [], revenueHistory = []\<rparr>
         \<and> runSingleTrial c P trialId g
             = run_periods P (SimulationState_new (cfg_I c), g) [0 .. cfg_T c - 1]
         \<and> (\<forall>k. 0 \<le> k \<and> k < cfg_T c \<longrightarrow>
               (\<exists>st_k g_k.
                  run_periods P (SimulationState_new (cfg_I c), g) [0 .. k - 1] = Inr (st_k, g_k)
                  \<and> 0 \<le> capacity st_k \<and> capacity st_k \<le> cfg_I c
                  \<and> int (length (priceHistory st_k)) = k
                  \<and> int (length (salesHistory st_k)) = k
                  \<and> int (length (revenueHistory st_k)) = k
                  \<and> run_periods P (SimulationState_new (cfg_I c), g) [0 .. k]
                      = trial_step P k (st_k, g_k)))"
proof -
  have m: "pm_matrix P = m" using assms(1) by (rule PolicyMatrix_new_fields(1))
  have con: "constructed P" using assms(1) m by (simp add: constructed_def)
  have step: "trial_step P t (st, g) =
           (if capacity st = 0
            then Inr (st\<lparr>priceHistory := priceHistory st @ [Num 0],
                         salesHistory := salesHistory st @ [False],
                         revenueHistory := revenueHistory st @ [Num 0]\<rparr>, g)
            else
              (let price = matrix_cell m (capacity st - 1) t;
                   u = fst (rng_next g);
                   sold = (u < SALE_PROBABILITIES price)
               in Inr (st\<lparr>capacity := (if sold then capacity st - 1 else capacity st),
                           revenue := (if sold then js_add (revenue st) price else revenue st),
                           salesCount := (if sold then salesCount st + 1 else salesCount st),
                           priceHistory := priceHistory st @ [price],
                           salesHistory := salesHistory st @ [sold],
                           revenueHistory := revenueHistory st @ [if sold then price else Num 0]\<rparr>,
                       snd (rng_next g))))"
  proof (cases "capacity st = 0")
    case True
    then show ?thesis using trial_step_no_capacity [of st P t g] by simp
  next
    case False
    with assms(4) have pos: "0 < capacity st" by simp
    show ?thesis
      using trial_step_capacity [OF con pos, of t g] assms(2,3,5,6,7) False m
      by (simp add: Let_def)
  qed
  from trial_loop_lengths [OF con, of "cfg_T c" 0 "(SimulationState_new (cfg_I c), g)"]
  obtain st' g' where "runSingleTrial c P trialId g = Inr (st', g')"
    and "length (priceHistory st') = nat (cfg_T c)"
    and "length (salesHistory st') = nat (cfg_T c)"
    and "length (revenueHistory st') = nat (cfg_T c)"
    by (auto simp: runSingleTrial_def SimulationState_new_def)
  moreover have "0 \<le> cfg_T c" using assms(6,7) by simp
  ultimately have "\<exists>st' g'. runSingleTrial c P trialId g = Inr (st', g')
               \<and> int (length (priceHistory st')) = cfg_T c
               \<and> int (length (salesHistory st')) = cfg_T c
               \<and> int (length (revenueHistory st')) = cfg_T c"
    by auto
  note lens = this
  have init: "SimulationState_new (cfg_I c)
             = \<lparr>capacity = cfg_I c, revenue = Num 0, salesCount = 0,
                priceHistory = [], salesHistory = [], revenueHistory = []\<rparr>"
    by (simp add: SimulationState_new_def)
  have whole: "runSingleTrial c P trialId g
             = run_periods P (SimulationState_new (cfg_I c), g) [0 .. cfg_T c - 1]"
    by (simp add: runSingleTrial_def trial_loop_run_periods)
  have I: "0 \<le> cfg_I c" using assms(4,5) by simp
  have periods: "\<exists>st_k g_k.
                  run_periods P (SimulationState_new (cfg_I c), g) [0 .. k - 1] = Inr (st_k, g_k)
                  \<and> 0 \<le> capacity st_k \<and> capacity st_k \<le> cfg_I c
                  \<and> int (length (priceHistory st_k)) = k
                  \<and> int (length (salesHistory st_k)) = k
                  \<and> int (length (revenueHistory st_k)) = k
                  \<and> run_periods P (SimulationState_new (cfg_I c), g) [0 .. k]
                      = trial_step P k (st_k, g_k)"
    if k: "0 \<le> k \<and> k < cfg_T c" for k
  proof -
    have "int (nat k) \<le> pm_T P" using k assms(3) by simp
    from run_periods_prefix [OF con I _ this, of g] assms(2) k
    obtain st_k g_k where
      r: "run_periods P (SimulationState_new (cfg_I c), g) [0 .. k - 1] = Inr (st_k, g_k)"
      and b: "0 \<le> capacity st_k" "capacity st_k \<le> cfg_I c"
      and l: "length (priceHistory st_k) = nat k" "length (salesHistory st_k) = nat k"
             "length (revenueHistory st_k) = nat k"
      by auto
    have "run_periods P (SimulationState_new (cfg_I c), g) [0 .. k] = trial_step P k (st_k, g_k)"
      using run_periods_snoc [of k P "(SimulationState_new (cfg_I c), g)"] k r
      by (simp add: step_result_def)
    with r b l k show ?thesis by auto
  qed
  from step lens init whole periods show ?thesis by blast
qed


theorem trial_step_semantics_witness:
  "PolicyMatrix_new all_LOW = Inr (policy_of all_LOW)
   \<and> trial_step (policy_of all_LOW) 0 (SimulationState_new 7, RNG_new 42)
       = Inr (\<lparr>capacity = 6, revenue = Num 30000, salesCount = 1, priceHistory = [Num 30000],
               salesHistory = [True], revenueHistory = [Num 30000]\<rparr>,
              \<lparr>rng_seed = 42, rng_current = 1083814273\<rparr>)
   \<and> trial_step (policy_of all_LOW) 9 (SimulationState_new 0, RNG_new 42)
       = Inr (\<lparr>capacity = 0, revenue = Num 0, salesCount = 0, priceHistory = [Num 0],
               salesHistory = [False], revenueHistory = [Num 0]\<rparr>,
              RNG_new 42)
   \<and> runSingleTrial example_config (policy_of all_LOW) 0 (RNG_new 42)
       = Inr (\<lparr>capacity = 0, revenue = Num 210000, salesCount = 7,
               priceHistory = [Num 30000, Num 30000, Num 30000, Num 30000, Num 30000, Num 30000,
                               Num 30000, Num 0, Num 0, Num 0, Num 0, Num 0, Num 0, Num 0, Num 0],
               salesHistory = [True, True, True, True, True, True, True, False, False, False,
                               False, False, False, False, False],
               revenueHistory = [Num 30000, Num 30000, Num 30000, Num 30000, Num 30000,
                                 Num 30000, Num 30000, Num 0, Num 0, Num 0, Num 0, Num 0, Num 0,
                                 Num 0, Num 0]\<rparr>,
              \<lparr>rng_seed = 42, rng_current = 1921058495\<rparr>)"
proof -
  have h: "PolicyMatrix_new all_LOW = Inr (policy_of all_LOW)" by (rule all_LOW_new)
  have cell: "matrix_cell all_LOW 6 0 = Num 30000"
    by (simp add: matrix_cell_def all_LOW_def js_nth_def)
  have u: "rng_next (RNG_new 42) = (1083814273 / 4294967296, \<lparr>rng_seed = 42, rng_current = 1083814273\<rparr>)"
    by (simp add: rng_next_def RNG_new_def js_rem_def RNG_a_def RNG_c_def RNG_m_def)
  have a: "trial_step (policy_of all_LOW) 0 (SimulationState_new 7, RNG_new 42)
       = Inr (\<lparr>capacity = 6, revenue = Num 30000, salesCount = 1, priceHistory = [Num 30000],
               salesHistory = [True], revenueHistory = [Num 30000]\<rparr>,
              \<lparr>rng_seed = 42, rng_current = 1083814273\<rparr>)"
    using trial_step_semantics [OF h, of example_config "SimulationState_new 7" 0 "RNG_new 42" 0]
    by (simp add: policy_of_def example_config_def SimulationState_new_def cell u Let_def)
  have b: "trial_step (policy_of all_LOW) 9 (SimulationState_new 0, RNG_new 42)
       = Inr (\<lparr>capacity = 0, revenue = Num 0, salesCount = 0, priceHistory = [Num 0],
               salesHistory = [False], revenueHistory = [Num 0]\<rparr>,
              RNG_new 42)"
    using trial_step_semantics [OF h, of example_config "SimulationState_new 0" 9 "RNG_new 42" 0]
    by (simp add: policy_of_def example_config_def SimulationState_new_def)
  have "runSingleTrial example_config (policy_of all_LOW) 0 (RNG_new 42)
          = run_periods (policy_of all_LOW) (SimulationState_new (cfg_I example_config), RNG_new 42)
              [0 .. cfg_T example_config - 1]"
    using trial_step_semantics [OF h, of example_config "SimulationState_new 7" 0 "RNG_new 42" 0]
    by (simp add: policy_of_def example_config_def SimulationState_new_def)
  with all_LOW_periods have w: "runSingleTrial example_config (policy_of all_LOW) 0 (RNG_new 42)
       = Inr (\<lparr>capacity = 0, revenue = Num 210000, salesCount = 7,
               priceHistory = [Num 30000, Num 30000, Num 30000, Num 30000, Num 30000, Num 30000,
                               Num 30000, Num 0, Num 0, Num 0, Num 0, Num 0, Num 0, Num 0, Num 0],
               salesHistory = [True, True, True, True, True, True, True, False, False, False,
                               False, False, False, False, False],
               revenueHistory = [Num 30000, Num 30000, Num 30000, Num 30000, Num 30000,
                                 Num 30000, Num 30000, Num 0, Num 0, Num 0, Num 0, Num 0, Num 0,
                                 Num 0, Num 0]\<rparr>,
              \<lparr>rng_seed = 42, rng_current = 1921058495\<rparr>)"
    by simp
  from h a b w show ?thesis by blast
qed

section \<open>Properties of the traces and of the fill rate\<close>

lemma sample_steps_full:
  assumes "int (length (priceHistory st)) = cfg_T c"
  shows "sample_steps (createSampleTrial c st) = map (sample_step c st) [0 .. cfg_T c - 1]"
proof -
  have "filter (\<lambda>t. t < int (length (priceHistory st))) [0 .. cfg_T c - 1] = [0 .. cfg_T c - 1]"
    using assms by (intro filter_True) auto
  then show ?thesis by (simp add: createSampleTrial_def)
qed

lemma sample_steps_length:
  assumes "int (length (priceHistory st)) = cfg_T c"
  shows "length (sample_steps (createSampleTrial c st)) = length (priceHistory st)"
proof -
  have "length [0 .. cfg_T c - 1] = length (priceHistory st)"
    using assms by simp
  then show ?thesis using sample_steps_full [OF assms] by simp
qed

lemma sample_steps_nth:
  assumes "int (length (priceHistory st)) = cfg_T c" and "k < length (priceHistory st)"
  shows "sample_steps (createSampleTrial c st) ! k = sample_step c st (int k)"
proof -
  have len: "length [0 .. cfg_T c - 1] = length (priceHistory st)"
    using assms(1) by simp
  have "[0 .. cfg_T c - 1] ! k = int k"
    using assms nth_upto [of 0 k "cfg_T c - 1"] by simp
  then show ?thesis
    using sample_steps_full [OF assms(1)] len assms(2) by simp
qed

lemma capacity_before_Suc:
  assumes "k < length (salesHistory st)"
  shows "capacity_before I st (Suc k) = capacity_before I st k - (if salesHistory st ! k then 1 else 0)"
  using assms by (simp add: capacity_before_def take_Suc_conv_app_nth sum_bool_snoc)

lemma period_ok_after:
  assumes "period_ok I st k" and "k < length (salesHistory st)"
  shows "0 \<le> capacity_before I st (Suc k)"
  using assms capacity_before_Suc [OF assms(2), of I]
  by (auto simp: period_ok_def Let_def split: if_splits)

lemma sample_step_remaining:
  assumes "period_ok I st k" and "k < length (salesHistory st)" and "cfg_I c = I"
  shows "step_remainingCapacity (sample_step c st (int k)) = capacity_before I st (Suc k)"
  using period_ok_after [OF assms(1,2)] assms(3)
  by (simp add: sample_step_def capacity_before_def nat_add_distrib)

lemma trace_ok_inv:
  assumes inv: "trial_inv I st" and I: "cfg_I c = I"
    and len: "int (length (salesHistory st)) = cfg_T c"
  shows "trace_ok c (sample_steps (createSampleTrial c st))"
proof -
  let ?tr = "sample_steps (createSampleTrial c st)"
  from inv have l1: "length (priceHistory st) = length (salesHistory st)"
    and l2: "length (revenueHistory st) = length (salesHistory st)"
    and ok: "\<And>k. k < length (salesHistory st) \<Longrightarrow> period_ok I st k"
    by (simp_all add: trial_inv_def)
  have lenp: "int (length (priceHistory st)) = cfg_T c" using l1 len by simp
  have ltr: "length ?tr = length (salesHistory st)"
    using sample_steps_length [OF lenp] l1 by simp
  have nth: "?tr ! k = sample_step c st (int k)" if "k < length (salesHistory st)" for k
    using sample_steps_nth [OF lenp, of k] that l1 by simp
  have before: "entered_with c ?tr k = capacity_before I st k" if k: "k < length (salesHistory st)" for k
  proof (cases k)
    case 0
    then show ?thesis by (simp add: entered_with_def capacity_before_def sum_bool_def I)
  next
    case (Suc j)
    with k have j: "j < length (salesHistory st)" by simp
    show ?thesis
      using Suc nth [OF j] sample_step_remaining [OF ok [OF j] j I]
      by (simp add: entered_with_def)
  qed
  have step: "let before = entered_with c ?tr k; r = ?tr ! k
            in step_period r = int k + 1
               \<and> 0 \<le> step_remainingCapacity r
               \<and> step_remainingCapacity r \<le> before
               \<and> before \<le> cfg_I c
               \<and> (step_sold r \<longrightarrow> 0 < before)
               \<and> step_remainingCapacity r = (if step_sold r then before - 1 else before)
               \<and> (before = 0 \<longrightarrow> step_price r = Num 0)
               \<and> (0 < before \<longrightarrow> step_price r \<in> {Num PRICE_LOW, Num PRICE_MED, Num PRICE_HIGH})
               \<and> step_revenue r = (if step_sold r then step_price r else Num 0)"
    if k: "k < length (salesHistory st)" for k
  proof -
    have rem: "step_remainingCapacity (?tr ! k) = capacity_before I st (Suc k)"
      using nth [OF k] sample_step_remaining [OF ok [OF k] k I] by simp
    have per: "step_period (?tr ! k) = int k + 1"
      using nth [OF k] by (simp add: sample_step_def)
    have sold: "step_sold (?tr ! k) = salesHistory st ! k"
      using nth [OF k] k by (simp add: sample_step_def js_sold_def)
    have pr: "step_price (?tr ! k) = priceHistory st ! k"
      using nth [OF k] k l1 by (simp add: sample_step_def js_nth_def)
    have rv: "step_revenue (?tr ! k) = js_or_zero (revenueHistory st ! k)"
      using nth [OF k] k l2 by (simp add: sample_step_def js_nth_def)
    from ok [OF k] have p: "period_ok I st k" .
    have rv2: "js_or_zero (revenueHistory st ! k)
                = (if salesHistory st ! k then priceHistory st ! k else Num 0)"
      using p by (auto simp: period_ok_def Let_def)
    show ?thesis
      using p before [OF k] rem per sold pr rv rv2 capacity_before_Suc [OF k, of I] I
      by (auto simp: period_ok_def Let_def canonical_price_def)
  qed
  show ?thesis
    unfolding trace_ok_def using ltr len step by simp
qed


lemma runSingleTrial_inv:
  assumes "constructed P" and "rectangular P" and "canonical P"
    and "pm_I P = cfg_I c" and "pm_T P = cfg_T c" and "0 \<le> cfg_I c" and "0 \<le> cfg_T c"
  shows "\<exists>st g'. runSingleTrial c P i g = Inr (st, g') \<and> trial_inv (cfg_I c) st
           \<and> int (length (salesHistory st)) = cfg_T c"
proof -
  have inv0: "trial_inv (cfg_I c) (fst (SimulationState_new (cfg_I c), g))"
    using assms(6) by (simp add: trial_inv_new)
  from trial_loop_inv [OF assms(1-4) _ _ inv0, of 0 "cfg_T c"] assms(5,7)
  show ?thesis
    by (auto simp: runSingleTrial_def SimulationState_new_def)
qed

lemma trials_loop_inv:
  "constructed P \<Longrightarrow> rectangular P \<Longrightarrow> canonical P \<Longrightarrow>
   pm_I P = cfg_I c \<Longrightarrow> pm_T P = cfg_T c \<Longrightarrow> 0 \<le> cfg_I c \<Longrightarrow> 0 \<le> cfg_T c \<Longrightarrow>
   list_all (\<lambda>st. trial_inv (cfg_I c) st \<and> int (length (salesHistory st)) = cfg_T c) (fst rg) \<Longrightarrow>
   \<exists>rs g'. trials_loop c P i rg = Inr (rs, g')
     \<and> list_all (\<lambda>st. trial_inv (cfg_I c) st \<and> int (length (salesHistory st)) = cfg_T c) rs
     \<and> length rs = length (fst rg) + nat (cfg_trials c - i)"
proof (induction c P i rg rule: trials_loop.induct)
  case (1 c P i rg)
  obtain rs0 g0 where rg: "rg = (rs0, g0)" by (cases rg)
  show ?case
  proof (cases "i < cfg_trials c")
    case False
    with rg "1.prems"(8) show ?thesis by (simp add: trials_loop.simps [of c P i "(rs0, g0)"])
  next
    case True
    from runSingleTrial_inv [OF "1.prems"(1-7), of i g0]
    obtain st g1 where run: "runSingleTrial c P i (snd rg) = Inr (st, g1)"
      and inv: "trial_inv (cfg_I c) st" and len: "int (length (salesHistory st)) = cfg_T c"
      using rg by auto
    have all: "list_all (\<lambda>st. trial_inv (cfg_I c) st \<and> int (length (salesHistory st)) = cfg_T c)
                 (fst (fst rg @ [fst (st, g1)], snd (st, g1)))"
      using "1.prems"(8) inv len by simp
    from "1.IH" [OF True run "1.prems"(1-7) all]
    obtain rs g' where r: "trials_loop c P (i + 1) (fst rg @ [fst (st, g1)], snd (st, g1)) = Inr (rs, g')"
      and ok: "list_all (\<lambda>st. trial_inv (cfg_I c) st \<and> int (length (salesHistory st)) = cfg_T c) rs"
      and l: "length rs = length (fst (fst rg @ [fst (st, g1)], snd (st, g1))) + nat (cfg_trials c - (i + 1))"
      by auto
    have "trials_loop c P i rg = Inr (rs, g')"
      using True run r by (simp add: trials_loop.simps [of c P i rg])
    moreover have "Suc (nat (cfg_trials c - (i + 1))) = nat (cfg_trials c - i)" using True by simp
    ultimately show ?thesis using ok l by auto
  qed
qed

lemma foldl_num_add_Finite:
  "foldl num_add (Finite a) (map (\<lambda>x. Finite (f x)) xs) = Finite (a + sum_list (map f xs))"
  by (induction xs arbitrary: a) (simp_all add: add.assoc)

lemma mean_Finite:
  assumes "xs \<noteq> []"
  shows "mean (map (\<lambda>x. Finite (f x)) xs) = Finite (sum_list (map f xs) / real (length xs))"
  using assms by (simp add: mean_def foldl_num_add_Finite)

lemma sum_list_bounds:
  fixes f :: "'a \<Rightarrow> real"
  assumes "list_all (\<lambda>x. 0 \<le> f x \<and> f x \<le> b) xs"
  shows "0 \<le> sum_list (map f xs) \<and> sum_list (map f xs) \<le> real (length xs) * b"
  using assms by (induction xs) (auto simp: algebra_simps)

lemma trial_inv_salesCount:
  assumes "trial_inv I st"
  shows "0 \<le> salesCount st \<and> salesCount st \<le> I"
  using assms sum_bool_bounds [of "salesHistory st"] by (auto simp: trial_inv_def)

lemma fillRate_unit_interval:
  assumes "list_all (\<lambda>st. trial_inv (cfg_I c) st \<and> int (length (salesHistory st)) = cfg_T c) rs"
    and "rs \<noteq> []" and "0 < cfg_I c"
  shows "\<exists>f. fillRate (calculateAggregates c rs) = Finite f \<and> 0 \<le> f \<and> f \<le> 1"
proof -
  let ?S = "sum_list (map (\<lambda>st. real_of_int (salesCount st)) rs)"
  let ?N = "real (length rs)"
  let ?I = "real_of_int (cfg_I c)"
  have "list_all (\<lambda>st. 0 \<le> real_of_int (salesCount st) \<and> real_of_int (salesCount st) \<le> ?I) rs"
    using assms(1) trial_inv_salesCount [of "cfg_I c"] by (auto simp: list_all_iff)
  then have b: "0 \<le> ?S \<and> ?S \<le> ?N * ?I" by (rule sum_list_bounds)
  have N: "0 < ?N" using assms(2) by simp
  have I: "0 < ?I" using assms(3) by simp
  have fr: "fillRate (calculateAggregates c rs) = Finite (?S / ?N / ?I)"
    using assms(2) I mean_Finite [OF assms(2), of "\<lambda>st. real_of_int (salesCount st)"]
    by (simp add: calculateAggregates_def Let_def)
  have "0 \<le> ?S / ?N / ?I" using b N I by simp
  moreover have "?S / ?N / ?I \<le> 1" using b N I by (simp add: divide_le_eq mult.commute)
  ultimately show ?thesis using fr by blast
qed


lemma runSimulation_success:
  assumes "constructed P" and "rectangular P" and "canonical P"
    and "validateConfig (eng_config e) = Inr ()"
    and "pm_I P = cfg_I (eng_config e)" and "pm_T P = cfg_T (eng_config e)"
  shows "\<exists>rs g'. trials_loop (eng_config e) P 0 ([], rng_reset (eng_rng e)) = Inr (rs, g')
           \<and> rs \<noteq> []
           \<and> list_all (\<lambda>st. trial_inv (cfg_I (eng_config e)) st
                             \<and> int (length (salesHistory st)) = cfg_T (eng_config e)) rs
           \<and> runSimulation e P =
               Inr (\<lparr>res_config = eng_config e, res_policy = P,
                     res_aggregates = calculateAggregates (eng_config e) rs,
                     res_sampleTrial = createSampleTrial (eng_config e) (hd rs),
                     res_priceHistogram = createPriceHistogram rs,
                     res_salesByPeriod = createSalesByPeriodHistogram (eng_config e) rs\<rparr>,
                    e\<lparr>eng_rng := g'\<rparr>)"
proof -
  let ?c = "eng_config e"
  from assms(4) have I: "0 < cfg_I ?c" and T: "0 < cfg_T ?c" and N: "0 < cfg_trials ?c"
    by (auto simp: validateConfig_def split: if_splits)
  have "list_all (\<lambda>st. trial_inv (cfg_I ?c) st \<and> int (length (salesHistory st)) = cfg_T ?c)
          (fst ([], rng_reset (eng_rng e)))"
    by simp
  from trials_loop_inv [OF assms(1-3) assms(5,6) _ _ this, of 0] I T
  obtain rs g' where loop: "trials_loop ?c P 0 ([], rng_reset (eng_rng e)) = Inr (rs, g')"
    and ok: "list_all (\<lambda>st. trial_inv (cfg_I ?c) st \<and> int (length (salesHistory st)) = cfg_T ?c) rs"
    and len: "length rs = nat (cfg_trials ?c)"
    by auto
  from len N have ne: "rs \<noteq> []" by auto
  then obtain r rest where rs: "rs = r # rest" by (cases rs) auto
  have "runSimulation e P =
               Inr (\<lparr>res_config = ?c, res_policy = P,
                     res_aggregates = calculateAggregates ?c rs,
                     res_sampleTrial = createSampleTrial ?c (hd rs),
                     res_priceHistogram = createPriceHistogram rs,
                     res_salesByPeriod = createSalesByPeriodHistogram ?c rs\<rparr>,
                    e\<lparr>eng_rng := g'\<rparr>)"
    using assms(5,6) loop rs T by (simp add: runSimulation_def Let_def)
  with loop ne ok show ?thesis by blast
qed

lemma all_LOW_rectangular: "rectangular (policy_of all_LOW)"
  by (simp add: rectangular_def policy_of_def all_LOW_def list_all_iff)

lemma all_LOW_canonical: "canonical (policy_of all_LOW)"
  by (simp add: canonical_def policy_of_def all_LOW_def list_all_iff canonical_price_def PRICE_LOW_def)

lemma example_config_valid: "validateConfig example_config = Inr ()"
  by (simp add: validateConfig_def example_config_def)

text \<open>
  C7 (trace invariants and bounds). For a policy made by the constructor, with every row
  of the length of the first and every cell one of the three prices, and an engine whose
  configuration passes \<^verbatim>\<open>_validateConfig\<close> and whose dimensions the policy matches:
  every trial, from whatever state of the generator, returns, and its trace satisfies
  \<open>trace_ok\<close>: exactly \<open>T\<close> records; the remaining capacity starts from \<open>I\<close>, never rises,
  stays in \<open>[0, I]\<close>; a sale occurs only in a period entered with positive capacity; the
  price is one of the three prices, or 0 exactly when the period is entered without
  capacity. The run returns, its sample trial satisfies the same, and its fill rate is
  a number in \<open>[0, 1]\<close>. (The fill rate is modelled by the exact quotient; rounding to a
  double is monotone and 0, \<open>I\<close> and 1 are doubles, so the two rounded divisions of the
  code stay within the same bounds.)
\<close>

theorem trace_invariants:
  assumes "PolicyMatrix_new m = Inr P" and "rectangular P" and "canonical P"
    and "validateConfig (eng_config e) = Inr ()"
    and "pm_I P = cfg_I (eng_config e)" and "pm_T P = cfg_T (eng_config e)"
  shows "(\<exists>st g'. runSingleTrial (eng_config e) P i g = Inr (st, g')
            \<and> trace_ok (eng_config e) (sample_steps (createSampleTrial (eng_config e) st)))
         \<and> (\<exists>res e'. runSimulation e P = Inr (res, e')
               \<and> trace_ok (eng_config e) (sample_steps (res_sampleTrial res))
               \<and> (\<exists>f. fillRate (res_aggregates res) = Finite f \<and> 0 \<le> f \<and> f \<le> 1))"
proof -
  let ?c = "eng_config e"
  have m: "pm_matrix P = m" using assms(1) by (rule PolicyMatrix_new_fields(1))
  have con: "constructed P" using assms(1) m by (simp add: constructed_def)
  from assms(4) have I: "0 < cfg_I ?c" and T: "0 < cfg_T ?c"
    by (auto simp: validateConfig_def split: if_splits)
  from runSingleTrial_inv [OF con assms(2,3,5,6), of i g] I T
  obtain st g' where run: "runSingleTrial ?c P i g = Inr (st, g')"
    and inv: "trial_inv (cfg_I ?c) st" and len: "int (length (salesHistory st)) = cfg_T ?c"
    by auto
  have one: "\<exists>st g'. runSingleTrial ?c P i g = Inr (st, g')
            \<and> trace_ok ?c (sample_steps (createSampleTrial ?c st))"
    using run trace_ok_inv [OF inv refl len] by blast
  from runSimulation_success [OF con assms(2-6)]
  obtain rs g2 where ne: "rs \<noteq> []"
    and ok: "list_all (\<lambda>st. trial_inv (cfg_I ?c) st \<and> int (length (salesHistory st)) = cfg_T ?c) rs"
    and sim: "runSimulation e P =
               Inr (\<lparr>res_config = ?c, res_policy = P,
                     res_aggregates = calculateAggregates ?c rs,
                     res_sampleTrial = createSampleTrial ?c (hd rs),
                     res_priceHistogram = createPriceHistogram rs,
                     res_salesByPeriod = createSalesByPeriodHistogram ?c rs\<rparr>,
                    e\<lparr>eng_rng := g2\<rparr>)"
    by blast
  from ne ok have "trial_inv (cfg_I ?c) (hd rs) \<and> int (length (salesHistory (hd rs))) = cfg_T ?c"
    by (cases rs) auto
  then have tr: "trace_ok ?c (sample_steps (createSampleTrial ?c (hd rs)))"
    using trace_ok_inv [of "cfg_I ?c" "hd rs" ?c] by simp
  from fillRate_unit_interval [OF ok ne I]
  obtain f where f: "fillRate (calculateAggregates ?c rs) = Finite f" "0 \<le> f" "f \<le> 1"
    by blast
  have "\<exists>res e'. runSimulation e P = Inr (res, e')
               \<and> trace_ok ?c (sample_steps (res_sampleTrial res))
               \<and> (\<exists>f. fillRate (res_aggregates res) = Finite f \<and> 0 \<le> f \<and> f \<le> 1)"
    using sim tr f by auto
  with one show ?thesis by blast
qed

theorem trace_invariants_witness:
  "PolicyMatrix_new all_LOW = Inr (policy_of all_LOW)
   \<and> rectangular (policy_of all_LOW) \<and> canonical (policy_of all_LOW)
   \<and> validateConfig example_config = Inr ()
   \<and> (\<exists>st g'. runSingleTrial example_config (policy_of all_LOW) 0 (RNG_new 42) = Inr (st, g')
         \<and> trace_ok example_config (sample_steps (createSampleTrial example_config st)))
   \<and> (\<exists>res e'. runSimulation \<lparr>eng_config = example_config, eng_rng = RNG_new 42\<rparr> (policy_of all_LOW)
                  = Inr (res, e')
         \<and> trace_ok example_config (sample_steps (res_sampleTrial res))
         \<and> (\<exists>f. fillRate (res_aggregates res) = Finite f \<and> 0 \<le> f \<and> f \<le> 1))"
proof -
  let ?e = "\<lparr>eng_config = example_config, eng_rng = RNG_new 42\<rparr>"
  have v: "validateConfig (eng_config ?e) = Inr ()" using example_config_valid by simp
  have i: "pm_I (policy_of all_LOW) = cfg_I (eng_config ?e)"
    by (simp add: policy_of_def example_config_def)
  have t: "pm_T (policy_of all_LOW) = cfg_T (eng_config ?e)"
    by (simp add: policy_of_def example_config_def)
  from trace_invariants [OF all_LOW_new all_LOW_rectangular all_LOW_canonical v i t, of 0 "RNG_new 42"]
  show ?thesis
    using all_LOW_new all_LOW_rectangular all_LOW_canonical example_config_valid by simp
qed

section \<open>Properties of the simulation run\<close>

lemma trial_step_seed:
  assumes "trial_step P t sg = Inr sg'"
  shows "rng_seed (snd sg') = rng_seed (snd sg)"
  using assms
  by (auto simp: trial_step_def Let_def rng_next_seed split: if_splits sum.splits)

lemma trial_loop_seed:
  "trial_loop P T t sg = Inr sg' \<Longrightarrow> rng_seed (snd sg') = rng_seed (snd sg)"
proof (induction P T t sg rule: trial_loop.induct)
  case (1 P T t sg)
  show ?case
  proof (cases "t < T")
    case False
    with "1.prems" show ?thesis by (simp add: trial_loop.simps [of P T t sg])
  next
    case True
    with "1.prems" obtain sg1 where step: "trial_step P t sg = Inr sg1"
      and rest: "trial_loop P T (t + 1) sg1 = Inr sg'"
      by (auto simp: trial_loop.simps [of P T t sg] split: sum.splits)
    from "1.IH" [OF True step rest] trial_step_seed [OF step] show ?thesis by simp
  qed
qed

lemma trials_loop_seed:
  "trials_loop c P i rg = Inr rg' \<Longrightarrow> rng_seed (snd rg') = rng_seed (snd rg)"
proof (induction c P i rg rule: trials_loop.induct)
  case (1 c P i rg)
  show ?case
  proof (cases "i < cfg_trials c")
    case False
    with "1.prems" show ?thesis by (simp add: trials_loop.simps [of c P i rg])
  next
    case True
    with "1.prems" obtain sg where run: "runSingleTrial c P i (snd rg) = Inr sg"
      and rest: "trials_loop c P (i + 1) (fst rg @ [fst sg], snd sg) = Inr rg'"
      by (auto simp: trials_loop.simps [of c P i rg] split: sum.splits)
    from run have "rng_seed (snd sg) = rng_seed (snd rg)"
      using trial_loop_seed [of P "cfg_T c" 0 "(SimulationState_new (cfg_I c), snd rg)" sg]
      by (simp add: runSingleTrial_def)
    with "1.IH" [OF True run rest] show ?thesis by simp
  qed
qed

lemma rng_reset_cong:
  assumes "rng_seed g' = rng_seed g"
  shows "rng_reset g' = rng_reset g"
  using assms by (simp add: rng_reset_new)

lemma runSimulation_cong:
  assumes "eng_config e' = eng_config e" and "rng_seed (eng_rng e') = rng_seed (eng_rng e)"
  shows "runSimulation e' P = runSimulation e P"
proof -
  have r: "rng_reset (eng_rng e') = rng_reset (eng_rng e)" using assms(2) by (rule rng_reset_cong)
  have u: "e'\<lparr>eng_rng := x\<rparr> = e\<lparr>eng_rng := x\<rparr>" for x
    using assms(1) by (cases e, cases e') simp
  show ?thesis
    unfolding runSimulation_def assms(1) r u ..
qed

lemma runSimulation_engine_after:
  assumes "runSimulation e P = Inr (res, e1)"
  shows "eng_config e1 = eng_config e \<and> rng_seed (eng_rng e1) = rng_seed (eng_rng e)"
proof -
  from assms obtain rg where loop: "trials_loop (eng_config e) P 0 ([], rng_reset (eng_rng e)) = Inr rg"
    and e1: "e1 = e\<lparr>eng_rng := snd rg\<rparr>"
    by (auto simp: runSimulation_def Let_def split: if_splits sum.splits list.splits)
  from trials_loop_seed [OF loop] have "rng_seed (snd rg) = rng_seed (eng_rng e)"
    by (simp add: rng_reset_def)
  with e1 show ?thesis by simp
qed

text \<open>
  C1 (determinism). \<^verbatim>\<open>runSimulation\<close> resets the generator of the engine to its seed
  before the first trial, so its outcome depends on the engine through the configuration
  and the seed only, not through the state in which earlier draws left the generator:
  two engines of the same configuration and seed give the same outcome for a policy, be
  it the same error or the same aggregates, sample trial, histograms and engine
  afterwards; and a second run on the engine a first run has left gives the result of the
  first again.
\<close>

theorem runSimulation_deterministic:
  assumes "eng_config e' = eng_config e" and "rng_seed (eng_rng e') = rng_seed (eng_rng e)"
  shows "runSimulation e' P = runSimulation e P
         \<and> (\<forall>res e1. runSimulation e P = Inr (res, e1) \<longrightarrow> runSimulation e1 P = Inr (res, e1))"
proof -
  have "runSimulation e1 P = Inr (res, e1)" if r: "runSimulation e P = Inr (res, e1)" for res e1
    using runSimulation_engine_after [OF r] runSimulation_cong [of e1 e P] r by simp
  with runSimulation_cong [OF assms] show ?thesis by blast
qed

theorem runSimulation_deterministic_witness:
  "eng_config \<lparr>eng_config = example_config, eng_rng = \<lparr>rng_seed = 42, rng_current = 1083814273\<rparr>\<rparr>
     = eng_config \<lparr>eng_config = example_config, eng_rng = RNG_new 42\<rparr>
   \<and> rng_seed (eng_rng \<lparr>eng_config = example_config, eng_rng = \<lparr>rng_seed = 42, rng_current = 1083814273\<rparr>\<rparr>)
     = rng_seed (eng_rng \<lparr>eng_config = example_config, eng_rng = RNG_new 42\<rparr>)
   \<and> runSimulation \<lparr>eng_config = example_config, eng_rng = \<lparr>rng_seed = 42, rng_current = 1083814273\<rparr>\<rparr>
        (policy_of all_LOW)
     = runSimulation \<lparr>eng_config = example_config, eng_rng = RNG_new 42\<rparr> (policy_of all_LOW)
   \<and> (\<exists>res e1. runSimulation \<lparr>eng_config = example_config, eng_rng = RNG_new 42\<rparr> (policy_of all_LOW)
                  = Inr (res, e1)
         \<and> runSimulation e1 (policy_of all_LOW) = Inr (res, e1))"
proof -
  let ?e = "\<lparr>eng_config = example_config, eng_rng = RNG_new 42\<rparr>"
  let ?e' = "\<lparr>eng_config = example_config, eng_rng = \<lparr>rng_seed = 42, rng_current = 1083814273\<rparr>\<rparr>"
  have c: "eng_config ?e' = eng_config ?e" by simp
  have s: "rng_seed (eng_rng ?e') = rng_seed (eng_rng ?e)" by (simp add: RNG_new_def)
  have con: "constructed (policy_of all_LOW)"
    using all_LOW_new by (simp add: constructed_def policy_of_def)
  have v: "validateConfig (eng_config ?e) = Inr ()" using example_config_valid by simp
  have i: "pm_I (policy_of all_LOW) = cfg_I (eng_config ?e)"
    by (simp add: policy_of_def example_config_def)
  have t: "pm_T (policy_of all_LOW) = cfg_T (eng_config ?e)"
    by (simp add: policy_of_def example_config_def)
  from runSimulation_success [OF con all_LOW_rectangular all_LOW_canonical v i t]
  obtain res e1 where r: "runSimulation ?e (policy_of all_LOW) = Inr (res, e1)" by blast
  from runSimulation_deterministic [OF c s, of "policy_of all_LOW"] r
  have "runSimulation ?e' (policy_of all_LOW) = runSimulation ?e (policy_of all_LOW)"
    and "runSimulation e1 (policy_of all_LOW) = Inr (res, e1)"
    by blast+
  with c s r show ?thesis by blast
qed

section \<open>The generator across the trials of a run\<close>

lemma runSingleTrial_index_unused: "runSingleTrial c P i g = runSingleTrial c P j g"
  by (simp add: runSingleTrial_def)

lemma runSingleTrial_trials_unused:
  "runSingleTrial (c\<lparr>cfg_trials := n\<rparr>) P i g = runSingleTrial c P i g"
  by (simp add: runSingleTrial_def)

lemma trials_loop_done:
  assumes "cfg_trials c \<le> i"
  shows "trials_loop c P i rg = Inr rg"
  using assms by (simp add: trials_loop.simps [of c P i rg])

lemma trials_loop_unfold:
  assumes "i < cfg_trials c"
  shows "trials_loop c P i rg =
           (case runSingleTrial c P i (snd rg) of
              Inl err \<Rightarrow> Inl err
            | Inr sg \<Rightarrow> trials_loop c P (i + 1) (fst rg @ [fst sg], snd sg))"
  using assms by (simp add: trials_loop.simps [of c P i rg])

lemma trials_loop_append:
  "trials_loop c P i rg = Inr rg' \<Longrightarrow> i \<le> cfg_trials c \<Longrightarrow>
   \<exists>ys. fst rg' = fst rg @ ys \<and> length ys = nat (cfg_trials c - i)"
proof (induction c P i rg rule: trials_loop.induct)
  case (1 c P i rg)
  show ?case
  proof (cases "i < cfg_trials c")
    case False
    with "1.prems" show ?thesis by (simp add: trials_loop_done)
  next
    case True
    with "1.prems"(1) obtain sg where run: "runSingleTrial c P i (snd rg) = Inr sg"
      and rest: "trials_loop c P (i + 1) (fst rg @ [fst sg], snd sg) = Inr rg'"
      by (auto simp: trials_loop_unfold split: sum.splits)
    from "1.IH" [OF True run rest] True
    obtain ys where "fst rg' = (fst rg @ [fst sg]) @ ys" and "length ys = nat (cfg_trials c - (i + 1))"
      by auto
    moreover have "Suc (nat (cfg_trials c - (i + 1))) = nat (cfg_trials c - i)" using True by simp
    ultimately have "fst rg' = fst rg @ (fst sg # ys) \<and> length (fst sg # ys) = nat (cfg_trials c - i)"
      by simp
    then show ?thesis by blast
  qed
qed

lemma trials_loop_split:
  "i \<le> n \<Longrightarrow> n \<le> cfg_trials c \<Longrightarrow>
   trials_loop c P i rg =
     (case trials_loop (c\<lparr>cfg_trials := n\<rparr>) P i rg of
        Inl err \<Rightarrow> Inl err
      | Inr rg' \<Rightarrow> trials_loop c P n rg')"
proof (induction "nat (n - i)" arbitrary: i rg)
  case 0
  then have "i = n" by simp
  then show ?case by (simp add: trials_loop_done)
next
  case (Suc k)
  then have lt: "i < n" by linarith
  with Suc.prems have lt': "i < cfg_trials c" by simp
  have k: "k = nat (n - (i + 1))" using Suc.hyps(2) by linarith
  show ?case
  proof (cases "runSingleTrial c P i (snd rg)")
    case (Inl err)
    then show ?thesis
      using lt lt' by (simp add: trials_loop_unfold runSingleTrial_trials_unused)
  next
    case (Inr sg)
    have "trials_loop c P (i + 1) (fst rg @ [fst sg], snd sg) =
            (case trials_loop (c\<lparr>cfg_trials := n\<rparr>) P (i + 1) (fst rg @ [fst sg], snd sg) of
               Inl err \<Rightarrow> Inl err
             | Inr rg' \<Rightarrow> trials_loop c P n rg')"
      using lt Suc.prems by (intro Suc.hyps(1) [OF k]) simp_all
    with Inr show ?thesis
      using lt lt' by (simp add: trials_loop_unfold runSingleTrial_trials_unused)
  qed
qed

lemma all_LOW_after_first_trial:
  "map_sum id snd (trials_loop (example_config\<lparr>cfg_trials := 1\<rparr>) (policy_of all_LOW) 0 ([], RNG_new 42))
     = Inr \<lparr>rng_seed = 42, rng_current = 1921058495\<rparr>"
  by code_simp

lemma trials_loop_share_generator:
  assumes "trials_loop c P 0 ([], g0) = Inr (rs, gN)" and "0 \<le> i" and "i < cfg_trials c"
  shows "\<exists>before g_i g_next.
           trials_loop (c\<lparr>cfg_trials := i\<rparr>) P 0 ([], g0) = Inr (before, g_i)
           \<and> before = take (nat i) rs
           \<and> length before = nat i
           \<and> runSingleTrial c P trialId g_i = Inr (rs ! nat i, g_next)
           \<and> trials_loop (c\<lparr>cfg_trials := i + 1\<rparr>) P 0 ([], g0) = Inr (before @ [rs ! nat i], g_next)"
proof -
  let ?c1 = "c\<lparr>cfg_trials := i + 1\<rparr>"
  let ?c0 = "c\<lparr>cfg_trials := i\<rparr>"
  from trials_loop_split [of 0 "i + 1" c P "([], g0)"] assms
  obtain rs1 g1 where p1: "trials_loop ?c1 P 0 ([], g0) = Inr (rs1, g1)"
    and rest: "trials_loop c P (i + 1) (rs1, g1) = Inr (rs, gN)"
    by (auto split: sum.splits)
  from trials_loop_split [of 0 i ?c1 P "([], g0)"] assms(2) p1
  obtain before g_i where p0: "trials_loop ?c0 P 0 ([], g0) = Inr (before, g_i)"
    and one: "trials_loop ?c1 P i (before, g_i) = Inr (rs1, g1)"
    by (auto split: sum.splits)
  from trials_loop_append [OF p0] assms(2) have len: "length before = nat i" by auto
  from one obtain sg where run: "runSingleTrial c P i g_i = Inr sg"
    and fin: "trials_loop ?c1 P (i + 1) (before @ [fst sg], snd sg) = Inr (rs1, g1)"
    by (auto simp: trials_loop_unfold runSingleTrial_trials_unused split: sum.splits)
  from fin have r1: "rs1 = before @ [fst sg]" and g1: "g1 = snd sg"
    by (simp_all add: trials_loop_done)
  from trials_loop_append [OF rest] assms(3)
  obtain ys where ys: "rs = rs1 @ ys" by auto
  with r1 len have nth: "rs ! nat i = fst sg" by (simp add: nth_append)
  from ys r1 len have tk: "before = take (nat i) rs" by simp
  have "runSingleTrial c P trialId g_i = Inr (rs ! nat i, snd sg)"
    using run nth runSingleTrial_index_unused [of c P trialId g_i i] by simp
  moreover have "trials_loop ?c1 P 0 ([], g0) = Inr (before @ [rs ! nat i], snd sg)"
    using p1 r1 g1 nth by simp
  ultimately show ?thesis using p0 len tk by blast
qed

lemma runSimulation_trials:
  assumes "runSimulation e P = Inr (res, e')"
  shows "\<exists>rs. trials_loop (eng_config e) P 0 ([], RNG_new (rng_seed (eng_rng e))) = Inr (rs, eng_rng e')
           \<and> rs \<noteq> []
           \<and> eng_config e' = eng_config e
           \<and> res_aggregates res = calculateAggregates (eng_config e) rs
           \<and> res_sampleTrial res = createSampleTrial (eng_config e) (rs ! 0)
           \<and> res_priceHistogram res = createPriceHistogram rs
           \<and> res_salesByPeriod res = createSalesByPeriodHistogram (eng_config e) rs"
proof -
  from assms obtain rg first rest where
    loop: "trials_loop (eng_config e) P 0 ([], rng_reset (eng_rng e)) = Inr rg"
    and rs: "fst rg = first # rest"
    and res: "res = \<lparr>res_config = eng_config e, res_policy = P,
                      res_aggregates = calculateAggregates (eng_config e) (fst rg),
                      res_sampleTrial = createSampleTrial (eng_config e) first,
                      res_priceHistogram = createPriceHistogram (fst rg),
                      res_salesByPeriod = createSalesByPeriodHistogram (eng_config e) (fst rg)\<rparr>"
    and e': "e' = e\<lparr>eng_rng := snd rg\<rparr>"
    by (auto simp: runSimulation_def Let_def split: if_splits sum.splits list.splits)
  have "trials_loop (eng_config e) P 0 ([], RNG_new (rng_seed (eng_rng e))) = Inr (fst rg, eng_rng e')"
    using loop e' by (simp add: rng_reset_new)
  with rs res e' show ?thesis by auto
qed

text \<open>
  C3 (per-trial seeding), as stated: the random stream of trial \<open>i\<close> is built from the
  run seed and \<open>i\<close> alone. The engine has one generator; \<^verbatim>\<open>runSimulation\<close> resets it
  once and every trial goes on drawing from it. For the engine that the constructor builds
  with seed 42 and two trials, the reset gives the generator seeded with 42, and the
  generator that the second trial starts from is the one the first trial has left: after
  the seven draws of the first trial under the policy of LOW prices, after its fifteen
  draws under the policy of HIGH prices. The first draw of the second trial differs
  between the two policies, and neither is the first draw of a generator seeded with
  \<open>42 + 1\<close>; under the policy of LOW prices the second trial of the run misses its third
  sale, where a trial from a generator seeded with \<open>42 + 1\<close> sells in each of its first
  seven periods.
\<close>

theorem trial_stream_depends_on_policy:
  "SimulationEngine_new \<lparr>raw_trials = Some 2, raw_seed = Some 42, raw_lastMinuteK = Some 3\<rparr>
     = Inr \<lparr>eng_config = example_config, eng_rng = RNG_new 42\<rparr>
   \<and> rng_reset (RNG_new 42) = RNG_new 42
   \<and> map_sum id snd (trials_loop (example_config\<lparr>cfg_trials := 1\<rparr>) (policy_of all_LOW) 0 ([], RNG_new 42))
     = Inr \<lparr>rng_seed = 42, rng_current = 1921058495\<rparr>
   \<and> map_sum id snd (trials_loop (example_config\<lparr>cfg_trials := 1\<rparr>) (policy_of all_HIGH) 0 ([], RNG_new 42))
     = Inr \<lparr>rng_seed = 42, rng_current = 2561818183\<rparr>
   \<and> fst (rng_next \<lparr>rng_seed = 42, rng_current = 1921058495\<rparr>) = 254390921 / 2147483648
   \<and> fst (rng_next \<lparr>rng_seed = 42, rng_current = 2561818183\<rparr>) = 194884477 / 2147483648
   \<and> fst (rng_next (RNG_new (42 + 1))) = 542739399 / 2147483648
   \<and> map_sum id (\<lambda>rg. map salesHistory (fst rg))
        (trials_loop example_config (policy_of all_LOW) 0 ([], rng_reset (RNG_new 42)))
     = Inr [[True, True, True, True, True, True, True, False, False, False, False, False, False,
             False, False],
            [True, True, False, True, True, True, True, True, False, False, False, False, False,
             False, False]]
   \<and> map_sum id (\<lambda>sg. salesHistory (fst sg))
        (runSingleTrial example_config (policy_of all_LOW) 1 (RNG_new (42 + 1)))
     = Inr [True, True, True, True, True, True, True, False, False, False, False, False, False,
            False, False]"
  by code_simp

text \<open>
  C3, amended. When \<^verbatim>\<open>runSimulation\<close> returns on an engine, its trials are the loop of
  trials started from the generator of the engine reset to its seed, which for an engine
  made by the constructor is the seed of the configuration (the given seed, or the default
  for an absent or zero one); the aggregates, the sample trial and the histograms are
  computed from the results \<open>rs\<close> of that loop, and the engine afterwards holds the
  generator as the last trial left it. For every index \<open>i\<close> below the number of trials,
  the first \<open>i\<close> trials alone, from the same reset generator, return the first \<open>i\<close> results
  and a generator \<open>g_i\<close>, which is the reset generator itself when \<open>i = 0\<close>; result \<open>i\<close> is
  the trial started from \<open>g_i\<close>, whatever trial index is passed to it; and the generator
  that this trial leaves is the one from which trial \<open>i + 1\<close> starts. So the outcome of a
  trial is determined by the policy, the seed and the draws that the trials before it
  have consumed.
\<close>

theorem trials_share_generator:
  assumes "runSimulation e P = Inr (res, e')"
    and "0 \<le> i" and "i < cfg_trials (eng_config e)"
  shows "\<exists>rs before g_i g_next.
           rng_reset (eng_rng e) = RNG_new (rng_seed (eng_rng e))
           \<and> trials_loop (eng_config e) P 0 ([], rng_reset (eng_rng e)) = Inr (rs, eng_rng e')
           \<and> int (length rs) = cfg_trials (eng_config e)
           \<and> res_aggregates res = calculateAggregates (eng_config e) rs
           \<and> res_sampleTrial res = createSampleTrial (eng_config e) (rs ! 0)
           \<and> res_priceHistogram res = createPriceHistogram rs
           \<and> res_salesByPeriod res = createSalesByPeriodHistogram (eng_config e) rs
           \<and> trials_loop ((eng_config e)\<lparr>cfg_trials := i\<rparr>) P 0 ([], rng_reset (eng_rng e))
               = Inr (before, g_i)
           \<and> before = take (nat i) rs
           \<and> (i = 0 \<longrightarrow> g_i = RNG_new (rng_seed (eng_rng e)))
           \<and> runSingleTrial (eng_config e) P trialId g_i = Inr (rs ! nat i, g_next)
           \<and> trials_loop ((eng_config e)\<lparr>cfg_trials := i + 1\<rparr>) P 0 ([], rng_reset (eng_rng e))
               = Inr (before @ [rs ! nat i], g_next)
           \<and> (SimulationEngine_new rc = Inr e \<longrightarrow>
                rng_seed (eng_rng e) = cfg_seed (eng_config e)
                \<and> cfg_seed (eng_config e) = js_or (raw_seed rc) DEFAULT_SEED)"
proof -
  let ?c = "eng_config e"
  let ?g0 = "RNG_new (rng_seed (eng_rng e))"
  have reset: "rng_reset (eng_rng e) = ?g0" by (rule rng_reset_new)
  from runSimulation_trials [OF assms(1)]
  obtain rs where loop: "trials_loop ?c P 0 ([], ?g0) = Inr (rs, eng_rng e')"
    and agg: "res_aggregates res = calculateAggregates ?c rs"
    and smp: "res_sampleTrial res = createSampleTrial ?c (rs ! 0)"
    and ph: "res_priceHistogram res = createPriceHistogram rs"
    and sp: "res_salesByPeriod res = createSalesByPeriodHistogram ?c rs"
    by blast
  from trials_loop_append [OF loop] assms(2,3) have len: "int (length rs) = cfg_trials ?c"
    by auto
  from trials_loop_share_generator [OF loop assms(2,3), of trialId]
  obtain before g_i g_next where
    p0: "trials_loop (?c\<lparr>cfg_trials := i\<rparr>) P 0 ([], ?g0) = Inr (before, g_i)"
    and tk: "before = take (nat i) rs"
    and run: "runSingleTrial ?c P trialId g_i = Inr (rs ! nat i, g_next)"
    and p1: "trials_loop (?c\<lparr>cfg_trials := i + 1\<rparr>) P 0 ([], ?g0) = Inr (before @ [rs ! nat i], g_next)"
    by blast
  have zero: "g_i = ?g0" if "i = 0"
    using p0 that by (simp add: trials_loop_done)
  have ctor: "rng_seed (eng_rng e) = cfg_seed (eng_config e)
                \<and> cfg_seed (eng_config e) = js_or (raw_seed rc) DEFAULT_SEED"
    if "SimulationEngine_new rc = Inr e"
    using that
    by (auto simp: SimulationEngine_new_def Let_def RNG_new_def split: sum.splits)
  from reset loop len agg smp ph sp p0 tk zero run p1 ctor show ?thesis
    by (simp only: reset) blast
qed

theorem trials_share_generator_witness:
  "SimulationEngine_new \<lparr>raw_trials = Some 2, raw_seed = Some 42, raw_lastMinuteK = Some 3\<rparr>
     = Inr \<lparr>eng_config = example_config, eng_rng = RNG_new 42\<rparr>
   \<and> (\<exists>res e' rs before g_next.
         runSimulation \<lparr>eng_config = example_config, eng_rng = RNG_new 42\<rparr> (policy_of all_LOW)
           = Inr (res, e')
         \<and> trials_loop example_config (policy_of all_LOW) 0 ([], RNG_new 42) = Inr (rs, eng_rng e')
         \<and> length rs = 2
         \<and> res_aggregates res = calculateAggregates example_config rs
         \<and> res_sampleTrial res = createSampleTrial example_config (rs ! 0)
         \<and> trials_loop (example_config\<lparr>cfg_trials := 1\<rparr>) (policy_of all_LOW) 0 ([], RNG_new 42)
             = Inr (before, \<lparr>rng_seed = 42, rng_current = 1921058495\<rparr>)
         \<and> before = take 1 rs
         \<and> runSingleTrial example_config (policy_of all_LOW) 1 \<lparr>rng_seed = 42, rng_current = 1921058495\<rparr>
             = Inr (rs ! 1, g_next))
   \<and> (\<exists>res e' rs.
         runSimulation \<lparr>eng_config = example_config, eng_rng = \<lparr>rng_seed = 42, rng_current = 777\<rparr>\<rparr>
           (policy_of all_LOW) = Inr (res, e')
         \<and> trials_loop example_config (policy_of all_LOW) 0 ([], RNG_new 42) = Inr (rs, eng_rng e')
         \<and> res_aggregates res = calculateAggregates example_config rs)"
proof -
  let ?P = "policy_of all_LOW"
  let ?rc = "\<lparr>raw_trials = Some 2, raw_seed = Some 42, raw_lastMinuteK = Some 3\<rparr>"
  let ?e = "\<lparr>eng_config = example_config, eng_rng = RNG_new 42\<rparr>"
  let ?used = "\<lparr>eng_config = example_config, eng_rng = \<lparr>rng_seed = 42, rng_current = 777\<rparr>\<rparr>"
  have new: "SimulationEngine_new ?rc = Inr ?e"
    by (simp add: SimulationEngine_new_def validateConfig_def Let_def CONFIG_I_def CONFIG_T_def
        example_config_def)
  have con: "constructed ?P" using all_LOW_new by (simp add: constructed_def policy_of_def)
  have dims: "pm_I ?P = 7" "pm_T ?P = 15" by (simp_all add: policy_of_def)
  have cfg: "cfg_I example_config = 7" "cfg_T example_config = 15" "cfg_trials example_config = 2"
    by (simp_all add: example_config_def)
  have r0: "rng_reset (RNG_new 42) = RNG_new 42" by (simp add: rng_reset_def RNG_new_def)
  have r1: "rng_reset \<lparr>rng_seed = 42, rng_current = 777\<rparr> = RNG_new 42"
    by (simp add: rng_reset_def RNG_new_def)
  from runSimulation_success [of ?P ?e, OF con all_LOW_rectangular all_LOW_canonical]
  obtain res e1 where run: "runSimulation ?e ?P = Inr (res, e1)"
    using example_config_valid dims cfg by auto
  from trials_share_generator [OF run, of 1 1 ?rc]
  obtain rs before g_i g_next where
    loop: "trials_loop example_config ?P 0 ([], RNG_new 42) = Inr (rs, eng_rng e1)"
    and len: "int (length rs) = 2"
    and agg: "res_aggregates res = calculateAggregates example_config rs"
    and smp: "res_sampleTrial res = createSampleTrial example_config (rs ! 0)"
    and p: "trials_loop (example_config\<lparr>cfg_trials := 1\<rparr>) ?P 0 ([], RNG_new 42) = Inr (before, g_i)"
    and tk: "before = take 1 rs"
    and t: "runSingleTrial example_config ?P 1 g_i = Inr (rs ! 1, g_next)"
    using cfg r0 by auto
  from p all_LOW_after_first_trial have g: "g_i = \<lparr>rng_seed = 42, rng_current = 1921058495\<rparr>"
    by simp
  from len have len2: "length rs = 2" by simp
  have first: "\<exists>res e' rs before g_next.
         runSimulation ?e ?P = Inr (res, e')
         \<and> trials_loop example_config ?P 0 ([], RNG_new 42) = Inr (rs, eng_rng e')
         \<and> length rs = 2
         \<and> res_aggregates res = calculateAggregates example_config rs
         \<and> res_sampleTrial res = createSampleTrial example_config (rs ! 0)
         \<and> trials_loop (example_config\<lparr>cfg_trials := 1\<rparr>) ?P 0 ([], RNG_new 42)
             = Inr (before, \<lparr>rng_seed = 42, rng_current = 1921058495\<rparr>)
         \<and> before = take 1 rs
         \<and> runSingleTrial example_config ?P 1 \<lparr>rng_seed = 42, rng_current = 1921058495\<rparr>
             = Inr (rs ! 1, g_next)"
    using run loop len2 agg smp p tk t g by blast
  from runSimulation_success [of ?P ?used, OF con all_LOW_rectangular all_LOW_canonical]
  obtain res' e2 where run': "runSimulation ?used ?P = Inr (res', e2)"
    using example_config_valid dims cfg by auto
  from trials_share_generator [OF run', of 0 0 ?rc]
  obtain rs' where
    "trials_loop example_config ?P 0 ([], RNG_new 42) = Inr (rs', eng_rng e2)"
    and "res_aggregates res' = calculateAggregates example_config rs'"
    using cfg r1 by auto
  with run' have second: "\<exists>res e' rs.
         runSimulation ?used ?P = Inr (res, e')
         \<and> trials_loop example_config ?P 0 ([], RNG_new 42) = Inr (rs, eng_rng e')
         \<and> res_aggregates res = calculateAggregates example_config rs"
    by blast
  from new first second show ?thesis by blast
qed

section \<open>Properties of the validation\<close>

lemma upt_Suc_shift: "[0..<Suc n] = 0 # map Suc [0..<n]"
  by (simp add: upt_conv_Cons map_Suc_upt del: upt_Suc)

lemma check_cells_eq:
  "check_cells i j row =
     map (\<lambda>k. cell_error i (j + int k) (row ! k))
       (filter (\<lambda>k. \<not> isValidPriceLevel (row ! k)) [0..<length row])"
proof (induction row arbitrary: j)
  case Nil
  show ?case by simp
next
  case (Cons cell rest)
  have "map (\<lambda>k. cell_error i (j + int k) ((cell # rest) ! k))
          (filter (\<lambda>k. \<not> isValidPriceLevel ((cell # rest) ! k)) (map Suc [0..<length rest]))
        = map (\<lambda>k. cell_error i (j + 1 + int k) (rest ! k))
            (filter (\<lambda>k. \<not> isValidPriceLevel (rest ! k)) [0..<length rest])"
    by (simp add: filter_map o_def add.assoc)
  then show ?case
    using Cons.IH [of "j + 1"] by (simp add: upt_Suc_shift del: upt_Suc)
qed

lemma check_rows_eq:
  "check_rows i m =
     concat (map (\<lambda>r. (if int (length (m ! r)) \<noteq> CONFIG_T then [row_length_error (i + int r) (m ! r)] else [])
                        @ check_cells (i + int r) 0 (m ! r))
               [0..<length m])"
proof (induction m arbitrary: i)
  case Nil
  show ?case by simp
next
  case (Cons row rest)
  have shift: "(\<lambda>r. (if int (length ((row # rest) ! r)) \<noteq> CONFIG_T
                    then [row_length_error (i + int r) ((row # rest) ! r)] else [])
                   @ check_cells (i + int r) 0 ((row # rest) ! r)) \<circ> Suc
        = (\<lambda>r. (if int (length (rest ! r)) \<noteq> CONFIG_T
                    then [row_length_error (i + 1 + int r) (rest ! r)] else [])
                   @ check_cells (i + 1 + int r) 0 (rest ! r))"
    by (rule ext) (simp add: add.assoc)
  show ?case
    using Cons.IH [of "i + 1"] by (simp add: upt_Suc_shift shift del: upt_Suc)
qed


lemma length_check_cells:
  "length (check_cells i j row) = length (filter (\<lambda>cell. \<not> isValidPriceLevel cell) row)"
  by (induction row arbitrary: j) simp_all

lemma length_check_rows:
  "length (check_rows i m) =
     length (filter (\<lambda>row. int (length row) \<noteq> CONFIG_T) m)
     + length (filter (\<lambda>cell. \<not> isValidPriceLevel cell) (concat m))"
  by (induction m arbitrary: i) (simp_all add: length_check_cells)

lemma check_cells_empty: "check_cells i j row = [] \<longleftrightarrow> list_all isValidPriceLevel row"
  by (induction row arbitrary: j) simp_all

lemma check_rows_empty:
  "check_rows i m = [] \<longleftrightarrow>
     list_all (\<lambda>row. int (length row) = CONFIG_T \<and> list_all isValidPriceLevel row) m"
  by (induction m arbitrary: i) (auto simp: check_cells_empty)

lemma errors_validateMatrix:
  "errors (validateMatrix m) =
     (if int (length m) \<noteq> CONFIG_I then [row_count_error m] else []) @ check_rows 0 m"
  by (simp add: validateMatrix_def Let_def)

lemma valid_validateMatrix:
  "valid (validateMatrix m) \<longleftrightarrow>
     int (length m) = CONFIG_I
     \<and> list_all (\<lambda>row. int (length row) = CONFIG_T \<and> list_all isValidPriceLevel row) m"
  by (simp add: validateMatrix_def Let_def check_rows_empty)

lemma cell_error_in_check_rows:
  assumes "i < length m" and "j < length (m ! i)" and "\<not> isValidPriceLevel (m ! i ! j)"
  shows "cell_error (int i) (int j) (m ! i ! j) \<in> set (check_rows 0 m)"
proof -
  have "cell_error (int i) (int j) (m ! i ! j) \<in> set (check_cells (int i) 0 (m ! i))"
    using assms(2,3) by (auto simp: check_cells_eq)
  then show ?thesis using assms(1) by (auto simp: check_rows_eq)
qed

lemma row_length_error_in_check_rows:
  assumes "i < length m" and "int (length (m ! i)) \<noteq> CONFIG_T"
  shows "row_length_error (int i) (m ! i) \<in> set (check_rows 0 m)"
  using assms by (auto simp: check_rows_eq)

text \<open>
  C6 (validation completeness). For every grid the list of errors of
  \<^verbatim>\<open>validateMatrix\<close> is exactly: the row-count error when the number of rows is not
  \<open>I\<close>; then, row by row, the row-length error when the row has not \<open>T\<close> cells, followed
  by one error for every cell of the row outside the vocabulary. So there is one error
  for every violation and no other, nothing stops at the first, and the result is valid
  exactly when the list is empty. A cell error carries the row and the column counted
  from 1 and the cell; a row-length error carries the row counted from 1 and the column
  \<open>-1\<close>; the row-count error carries \<open>-1\<close> for both. A grid with a wrong number of rows
  and a bad cell has the row-count error and the error of that cell, which differ.
\<close>

theorem validateMatrix_complete:
  "valid (validateMatrix m) = (errors (validateMatrix m) = [])
   \<and> errors (validateMatrix m) =
       (if int (length m) \<noteq> CONFIG_I then [row_count_error m] else [])
       @ concat (map (\<lambda>i. (if int (length (m ! i)) \<noteq> CONFIG_T
                            then [row_length_error (int i) (m ! i)] else [])
                           @ map (\<lambda>j. cell_error (int i) (int j) (m ! i ! j))
                               (filter (\<lambda>j. \<not> isValidPriceLevel (m ! i ! j)) [0..<length (m ! i)]))
                   [0..<length m])
   \<and> length (errors (validateMatrix m)) =
       (if int (length m) \<noteq> CONFIG_I then 1 else 0)
       + length (filter (\<lambda>row. int (length row) \<noteq> CONFIG_T) m)
       + length (filter (\<lambda>cell. \<not> isValidPriceLevel cell) (concat m))
   \<and> err_row (row_count_error m) = - 1 \<and> err_col (row_count_error m) = - 1
   \<and> err_row (row_length_error (int i) row) = int i + 1
   \<and> err_col (row_length_error (int i) row) = - 1
   \<and> err_row (cell_error (int i) (int j) cell) = int i + 1
   \<and> err_col (cell_error (int i) (int j) cell) = int j + 1
   \<and> err_value (cell_error (int i) (int j) cell) = cell
   \<and> (int (length m) \<noteq> CONFIG_I \<and> i < length m \<and> j < length (m ! i)
        \<and> \<not> isValidPriceLevel (m ! i ! j)
      \<longrightarrow> row_count_error m \<in> set (errors (validateMatrix m))
          \<and> cell_error (int i) (int j) (m ! i ! j) \<in> set (errors (validateMatrix m))
          \<and> row_count_error m \<noteq> cell_error (int i) (int j) (m ! i ! j))"
proof -
  have v: "valid (validateMatrix m) = (errors (validateMatrix m) = [])"
    by (simp add: validateMatrix_def Let_def)
  have e: "errors (validateMatrix m) =
       (if int (length m) \<noteq> CONFIG_I then [row_count_error m] else [])
       @ concat (map (\<lambda>i. (if int (length (m ! i)) \<noteq> CONFIG_T
                            then [row_length_error (int i) (m ! i)] else [])
                           @ map (\<lambda>j. cell_error (int i) (int j) (m ! i ! j))
                               (filter (\<lambda>j. \<not> isValidPriceLevel (m ! i ! j)) [0..<length (m ! i)]))
                   [0..<length m])"
    by (simp add: errors_validateMatrix check_rows_eq [of 0 m] check_cells_eq cong: if_cong)
  have l: "length (errors (validateMatrix m)) =
       (if int (length m) \<noteq> CONFIG_I then 1 else 0)
       + length (filter (\<lambda>row. int (length row) \<noteq> CONFIG_T) m)
       + length (filter (\<lambda>cell. \<not> isValidPriceLevel cell) (concat m))"
    by (simp add: errors_validateMatrix length_check_rows)
  have c: "err_row (row_count_error m) = - 1 \<and> err_col (row_count_error m) = - 1
   \<and> err_row (row_length_error (int i) row) = int i + 1
   \<and> err_col (row_length_error (int i) row) = - 1
   \<and> err_row (cell_error (int i) (int j) cell) = int i + 1
   \<and> err_col (cell_error (int i) (int j) cell) = int j + 1
   \<and> err_value (cell_error (int i) (int j) cell) = cell"
    by (simp add: row_count_error_def row_length_error_def cell_error_def)
  have two: "row_count_error m \<in> set (errors (validateMatrix m))
          \<and> cell_error (int i) (int j) (m ! i ! j) \<in> set (errors (validateMatrix m))
          \<and> row_count_error m \<noteq> cell_error (int i) (int j) (m ! i ! j)"
    if "int (length m) \<noteq> CONFIG_I" and "i < length m" and "j < length (m ! i)"
      and "\<not> isValidPriceLevel (m ! i ! j)"
  proof -
    have "err_row (row_count_error m) \<noteq> err_row (cell_error (int i) (int j) (m ! i ! j))"
      by (simp add: row_count_error_def cell_error_def)
    then have "row_count_error m \<noteq> cell_error (int i) (int j) (m ! i ! j)" by metis
    with that cell_error_in_check_rows [OF that(2-4)] show ?thesis
      by (simp add: errors_validateMatrix)
  qed
  from v e l c two show ?thesis by blast
qed

theorem validateMatrix_complete_witness:
  "int (length bad_grid) \<noteq> CONFIG_I \<and> 0 < length bad_grid \<and> 1 < length (bad_grid ! 0)
   \<and> \<not> isValidPriceLevel (bad_grid ! 0 ! 1)
   \<and> row_count_error bad_grid \<in> set (errors (validateMatrix bad_grid))
   \<and> cell_error 0 1 ''BAD'' \<in> set (errors (validateMatrix bad_grid))
   \<and> row_count_error bad_grid \<noteq> cell_error 0 1 ''BAD''
   \<and> length (errors (validateMatrix bad_grid)) = 3
   \<and> \<not> valid (validateMatrix bad_grid)"
proof -
  have h: "int (length bad_grid) \<noteq> CONFIG_I \<and> 0 < length bad_grid \<and> 1 < length (bad_grid ! 0)
           \<and> \<not> isValidPriceLevel (bad_grid ! 0 ! 1)"
    by (simp add: bad_grid_def CONFIG_I_def isValidPriceLevel_def validValues_def)
  have b: "bad_grid ! 0 ! 1 = ''BAD''" by (simp add: bad_grid_def)
  have n: "(if int (length bad_grid) \<noteq> CONFIG_I then 1 else 0)
       + length (filter (\<lambda>row. int (length row) \<noteq> CONFIG_T) bad_grid)
       + length (filter (\<lambda>cell. \<not> isValidPriceLevel cell) (concat bad_grid)) = (3::nat)"
    by (simp add: bad_grid_def CONFIG_I_def CONFIG_T_def isValidPriceLevel_def validValues_def)
  from validateMatrix_complete [of bad_grid 0 row 1 cell] h b n
  show ?thesis by auto
qed




section \<open>Properties of the benchmark and of the regret\<close>

lemma length_dp_next: "length (dp_next xs) = length xs - 1"
  by (induction xs rule: dp_next.induct) simp_all

lemma length_dp_row: "length (dp_row I r) = Suc I"
  by (induction r) (simp_all add: length_dp_next)

lemma dp_next_nth:
  "Suc k < length xs \<Longrightarrow> dp_next xs ! k = best_value (xs ! k) (xs ! Suc k)"
proof (induction xs arbitrary: k rule: dp_next.induct)
  case (1 a b rest)
  then show ?case by (cases k) simp_all
qed simp_all

lemma dp_row_nth: "c \<le> I \<Longrightarrow> dp_row I r ! c = optimal_value c r"
proof (induction r arbitrary: c)
  case 0
  then show ?case by (cases c) simp_all
next
  case (Suc r)
  show ?case
  proof (cases c)
    case 0
    then show ?thesis by simp
  next
    case (Suc k)
    with Suc.prems have k: "Suc k < length (dp_row I r)" by (simp add: length_dp_row)
    from Suc.prems \<open>c = Suc k\<close> have "k \<le> I" and "Suc k \<le> I" by simp_all
    then show ?thesis
      using \<open>c = Suc k\<close> dp_next_nth [OF k] Suc.IH [of k] Suc.IH [of "Suc k"] by simp
  qed
qed

lemma optimal_expected_revenue_eq: "optimal_expected_revenue I T = optimal_value I T"
  by (simp add: optimal_expected_revenue_def dp_row_nth)


lemma level_prob_bounds: "0 \<le> level_prob l \<and> level_prob l \<le> 1"
  by (cases l) (simp_all add: level_prob_def PRICE_LOW_def PRICE_MED_def PRICE_HIGH_def)

lemma level_value_le_best: "level_value a b l \<le> best_value a b"
  by (cases l) (simp_all add: best_value_def)

lemma canonical_price_level:
  assumes "canonical_price p"
  shows "\<exists>l. p = level_price l"
proof -
  from assms have "p = level_price LOW \<or> p = level_price MED \<or> p = level_price HIGH"
    by (simp add: canonical_price_def)
  then show ?thesis by blast
qed

lemma price_at_canonical:
  assumes "constructed P" and "rectangular P" and "canonical P"
    and "0 < c" and "int c \<le> pm_I P" and "int t < pm_T P"
  shows "\<exists>l. price_at P c t = level_price l"
proof -
  have g: "getPrice P (int c - 1) (int t) = Inr (matrix_cell (pm_matrix P) (int c - 1) (int t))"
    using assms by (intro getPrice_in_range) simp_all
  from matrix_cell_canonical [OF assms(1-3), of "int c - 1" "int t"] assms(4-6)
  obtain n where "canonical_price n" and "matrix_cell (pm_matrix P) (int c - 1) (int t) = Num n"
    by auto
  with g have "price_at P c t = n" by (simp add: price_at_def)
  with \<open>canonical_price n\<close> canonical_price_level show ?thesis by blast
qed

lemma expected_level_step:
  fixes q :: real
  assumes "0 \<le> q" and "q \<le> 1" and "e1 \<le> v1" and "e2 \<le> v2"
  shows "q * (p + e1) + (1 - q) * e2 \<le> q * (p + v1) + (1 - q) * v2"
proof -
  have "q * (p + e1) \<le> q * (p + v1)" using assms(1,3) by (simp add: mult_left_mono)
  moreover have "(1 - q) * e2 \<le> (1 - q) * v2" using assms(2,4) by (simp add: mult_left_mono)
  ultimately show ?thesis by linarith
qed

lemma expected_le_optimal:
  assumes "constructed P" and "rectangular P" and "canonical P" and "int T = pm_T P"
  shows "int c \<le> pm_I P \<Longrightarrow> r \<le> T \<Longrightarrow> expected_revenue P T c r \<le> optimal_value c r"
proof (induction c r rule: optimal_value.induct)
  case (1 r)
  show ?case by simp
next
  case (2 c)
  show ?case by simp
next
  case (3 c r)
  let ?p = "price_at P (Suc c) (T - Suc r)"
  have t: "int (T - Suc r) < pm_T P" using "3.prems"(2) assms(4) by linarith
  from price_at_canonical [OF assms(1-3) _ "3.prems"(1) t]
  obtain l where l: "?p = level_price l" by auto
  have q: "real_of_rat (SALE_PROBABILITIES (Num ?p)) = level_prob l"
    using l by (simp add: level_prob_def)
  have e1: "expected_revenue P T c r \<le> optimal_value c r"
    using "3.prems" by (intro "3.IH"(1)) simp_all
  have e2: "expected_revenue P T (Suc c) r \<le> optimal_value (Suc c) r"
    using "3.prems" by (intro "3.IH"(2)) simp_all
  have "expected_revenue P T (Suc c) (Suc r)
          = level_prob l * (of_int (level_price l) + expected_revenue P T c r)
            + (1 - level_prob l) * expected_revenue P T (Suc c) r"
    using l q by (simp add: Let_def)
  also have "\<dots> \<le> level_value (optimal_value c r) (optimal_value (Suc c) r) l"
    unfolding level_value_def
    using level_prob_bounds [of l] e1 e2 by (intro expected_level_step) simp_all
  also have "\<dots> \<le> optimal_value (Suc c) (Suc r)"
    using level_value_le_best by simp
  finally show ?case .
qed


lemma level_value_best_level: "level_value a b (best_level a b) = best_value a b"
  by (auto simp: best_level_def best_value_def max_def)

lemma price_at_optimal_policy:
  assumes "Suc ci \<le> I" and "t < T"
  shows "price_at (optimal_policy I T) (Suc ci) t =
           level_price (best_level (optimal_value ci (T - Suc t)) (optimal_value (Suc ci) (T - Suc t)))"
  using assms by (simp add: price_at_def getPrice_def optimal_policy_def Let_def)

lemma optimal_policy_canonical: "canonical (optimal_policy I T)"
proof -
  have "canonical_price (level_price l)" for l
    by (cases l) (simp_all add: canonical_price_def)
  then show ?thesis by (simp add: canonical_def optimal_policy_def list_all_iff)
qed

lemma optimal_policy_rectangular: "rectangular (optimal_policy I T)"
  by (simp add: rectangular_def optimal_policy_def list_all_iff)

lemma optimal_policy_constructed:
  assumes "0 < I"
  shows "PolicyMatrix_new (pm_matrix (optimal_policy I T)) = Inr (optimal_policy I T)"
proof -
  from assms have "[0..<I] = 0 # [1..<I]" by (simp add: upt_conv_Cons)
  with assms show ?thesis by (simp add: PolicyMatrix_new_def optimal_policy_def)
qed

lemma expected_optimal_policy:
  "c \<le> I \<Longrightarrow> r \<le> T \<Longrightarrow> expected_revenue (optimal_policy I T) T c r = optimal_value c r"
proof (induction c r rule: optimal_value.induct)
  case (1 r)
  show ?case by simp
next
  case (2 c)
  show ?case by simp
next
  case (3 c r)
  let ?l = "best_level (optimal_value c r) (optimal_value (Suc c) r)"
  have t: "T - Suc r < T" and rt: "T - Suc (T - Suc r) = r" using "3.prems"(2) by simp_all
  have p: "price_at (optimal_policy I T) (Suc c) (T - Suc r) = level_price ?l"
    using price_at_optimal_policy [OF "3.prems"(1) t] rt by simp
  have e1: "expected_revenue (optimal_policy I T) T c r = optimal_value c r"
    using "3.prems" by (intro "3.IH"(1)) simp_all
  have e2: "expected_revenue (optimal_policy I T) T (Suc c) r = optimal_value (Suc c) r"
    using "3.prems" by (intro "3.IH"(2)) simp_all
  have "expected_revenue (optimal_policy I T) T (Suc c) (Suc r)
          = level_value (optimal_value c r) (optimal_value (Suc c) r) ?l"
    using p e1 e2 by (simp add: Let_def level_value_def level_prob_def)
  then show ?case by (simp add: level_value_best_level)
qed

lemma UNIV_price_level: "(UNIV :: price_level set) = {LOW, MED, HIGH}"
proof -
  have "l \<in> {LOW, MED, HIGH}" for l by (cases l) simp_all
  then show ?thesis by blast
qed

lemma best_value_Max:
  "best_value a b = Max ((\<lambda>l. level_prob l * (of_int (level_price l) + a) + (1 - level_prob l) * b) ` UNIV)"
  by (simp add: UNIV_price_level best_value_def level_value_def)

lemma simulate_regret:
  assumes "simulate e P compute_regret = Inr ((res, reg), e')"
  shows "runSimulation e P = Inr (res, e')"
    and "reg = (if compute_regret
                then Some (num_sub (Finite (optimal_value (nat (cfg_I (eng_config e)))
                                                          (nat (cfg_T (eng_config e)))))
                                   (avgRevenue (res_aggregates res)))
                else None)"
  using assms
  by (auto simp: simulate_def regret_def optimal_expected_revenue_eq split: sum.splits if_splits)


lemma level_prob_simps:
  "level_prob LOW = 9 / 10" "level_prob MED = 8 / 10" "level_prob HIGH = 4 / 10"
  by (simp_all add: level_prob_def PRICE_LOW_def PRICE_MED_def PRICE_HIGH_def of_rat_divide)

lemma level_value_upper:
  assumes "a \<le> 50000 * real c" and "b \<le> 50000 * real (Suc c)"
  shows "level_value a b l \<le> 50000 * real (Suc c)"
proof -
  let ?q = "level_prob l" and ?p = "real_of_int (level_price l)"
  have p: "?p \<le> 50000"
    by (cases l) (simp_all add: PRICE_LOW_def PRICE_MED_def PRICE_HIGH_def)
  have q: "0 \<le> ?q" "0 \<le> 1 - ?q" using level_prob_bounds [of l] by simp_all
  have "?p + a \<le> 50000 * real (Suc c)" using p assms(1) by simp
  then have "?q * (?p + a) \<le> ?q * (50000 * real (Suc c))"
    using q(1) by (rule mult_left_mono)
  moreover have "(1 - ?q) * b \<le> (1 - ?q) * (50000 * real (Suc c))"
    using assms(2) q(2) by (rule mult_left_mono)
  moreover have "?q * (50000 * real (Suc c)) + (1 - ?q) * (50000 * real (Suc c)) = 50000 * real (Suc c)"
    by (simp add: algebra_simps)
  ultimately show ?thesis unfolding level_value_def by linarith
qed

lemma optimal_value_upper: "optimal_value c r \<le> 50000 * real c"
proof (induction c r rule: optimal_value.induct)
  case (3 c r)
  then show ?case
    using level_value_upper [of "optimal_value c r" c "optimal_value (Suc c) r"]
    by (simp add: best_value_def)
qed simp_all

lemma optimal_value_1_1: "optimal_value 1 1 = 32000"
proof -
  have "optimal_expected_revenue 1 1 = 32000" by code_simp
  then show ?thesis by (simp add: optimal_expected_revenue_eq)
qed

text \<open>
  C5 (optimal benchmark and regret), on the benchmark and the regret modelled from the
  spec. When the regret is requested, the output of a run that returns carries the result
  of the run and the regret: the benchmark for the shape \<open>(I, T)\<close> of the configuration
  minus the average revenue of the aggregates, whatever its sign. The benchmark is the
  value of the recurrence: \<open>value(0, r) = 0\<close>, \<open>value(c, 0) = 0\<close>, and \<open>value(c, r)\<close> the
  maximum over the three levels of
  \<open>prob * (price + value(c - 1, r - 1)) + (1 - prob) * value(c, r - 1)\<close>; the table of the
  backward induction computes it. It is a function of the shape alone, neither the policy
  nor a draw enters it. It is the exact optimum: no rectangular policy of canonical
  prices of that shape has a larger expected revenue, and the policy of the maximising
  levels has exactly this expected revenue.
\<close>

theorem regret_benchmark:
  "(simulate e P True = Inr ((res, reg), e') \<longrightarrow>
      runSimulation e P = Inr (res, e')
      \<and> reg = Some (num_sub (Finite (optimal_value (nat (cfg_I (eng_config e)))
                                                   (nat (cfg_T (eng_config e)))))
                            (avgRevenue (res_aggregates res))))
   \<and> (avgRevenue agg = Finite a \<longrightarrow>
        regret c agg = Finite (optimal_value (nat (cfg_I c)) (nat (cfg_T c)) - a))
   \<and> optimal_value 0 r = 0 \<and> optimal_value k 0 = 0
   \<and> optimal_value (Suc k) (Suc r) =
       Max ((\<lambda>l. level_prob l * (of_int (level_price l) + optimal_value k r)
                  + (1 - level_prob l) * optimal_value (Suc k) r) ` UNIV)
   \<and> optimal_expected_revenue I T = optimal_value I T
   \<and> (PolicyMatrix_new m = Inr Q \<and> rectangular Q \<and> canonical Q
        \<and> pm_I Q = int I \<and> pm_T Q = int T
      \<longrightarrow> expected_revenue Q T I T \<le> optimal_value I T)
   \<and> expected_revenue (optimal_policy I T) T I T = optimal_value I T"
proof -
  have a: "runSimulation e P = Inr (res, e')
      \<and> reg = Some (num_sub (Finite (optimal_value (nat (cfg_I (eng_config e)))
                                                   (nat (cfg_T (eng_config e)))))
                            (avgRevenue (res_aggregates res)))"
    if "simulate e P True = Inr ((res, reg), e')"
    using simulate_regret [OF that] by simp
  have b: "regret c agg = Finite (optimal_value (nat (cfg_I c)) (nat (cfg_T c)) - a)"
    if "avgRevenue agg = Finite a"
    using that by (simp add: regret_def num_sub_def optimal_expected_revenue_eq)
  have d: "optimal_value k 0 = 0" by (cases k) simp_all
  have f: "optimal_value (Suc k) (Suc r) =
       Max ((\<lambda>l. level_prob l * (of_int (level_price l) + optimal_value k r)
                  + (1 - level_prob l) * optimal_value (Suc k) r) ` UNIV)"
    using best_value_Max [of "optimal_value k r" "optimal_value (Suc k) r"] by simp
  have g: "expected_revenue Q T I T \<le> optimal_value I T"
    if "PolicyMatrix_new m = Inr Q \<and> rectangular Q \<and> canonical Q
        \<and> pm_I Q = int I \<and> pm_T Q = int T"
  proof -
    from that have "pm_matrix Q = m" using PolicyMatrix_new_fields(1) by blast
    with that have "constructed Q" by (simp add: constructed_def)
    with that show ?thesis by (intro expected_le_optimal) simp_all
  qed
  from a b d f g optimal_expected_revenue_eq [of I T] expected_optimal_policy [of I I T T]
  show ?thesis by simp
qed

theorem regret_benchmark_witness:
  "(\<exists>res reg e'.
      simulate \<lparr>eng_config = example_config, eng_rng = RNG_new 42\<rparr> (policy_of all_LOW) True
        = Inr ((res, reg), e')
      \<and> reg = Some (num_sub (Finite (optimal_value 7 15)) (avgRevenue (res_aggregates res))))
   \<and> avgRevenue overshoot_aggregates = Finite 400000
   \<and> (\<exists>x. regret example_config overshoot_aggregates = Finite x \<and> x < 0)
   \<and> PolicyMatrix_new all_LOW = Inr (policy_of all_LOW)
   \<and> rectangular (policy_of all_LOW) \<and> canonical (policy_of all_LOW)
   \<and> expected_revenue (policy_of all_LOW) 15 7 15 \<le> optimal_value 7 15
   \<and> optimal_expected_revenue 1 1 = 32000"
proof -
  let ?e = "\<lparr>eng_config = example_config, eng_rng = RNG_new 42\<rparr>"
  let ?P = "policy_of all_LOW"
  have con: "constructed ?P" using all_LOW_new by (simp add: constructed_def policy_of_def)
  have v: "validateConfig (eng_config ?e) = Inr ()" using example_config_valid by simp
  have i: "pm_I ?P = cfg_I (eng_config ?e)" by (simp add: policy_of_def example_config_def)
  have t: "pm_T ?P = cfg_T (eng_config ?e)" by (simp add: policy_of_def example_config_def)
  from runSimulation_success [OF con all_LOW_rectangular all_LOW_canonical v i t]
  obtain res e1 where run: "runSimulation ?e ?P = Inr (res, e1)" by blast
  let ?reg = "Some (regret (eng_config ?e) (res_aggregates res))"
  have sim: "simulate ?e ?P True = Inr ((res, ?reg), e1)"
    using run by (simp add: simulate_def)
  have av: "avgRevenue overshoot_aggregates = Finite 400000"
    by (simp add: overshoot_aggregates_def)
  have h: "PolicyMatrix_new all_LOW = Inr ?P \<and> rectangular ?P \<and> canonical ?P
        \<and> pm_I ?P = int 7 \<and> pm_T ?P = int 15"
    using all_LOW_new all_LOW_rectangular all_LOW_canonical by (simp add: policy_of_def)
  note inst = regret_benchmark [where e = ?e and P = ?P and res = res and reg = ?reg and e' = e1
      and agg = overshoot_aggregates and a = 400000 and c = example_config
      and m = all_LOW and Q = ?P and I = 7 and T = 15]
  have r1: "?reg = Some (num_sub (Finite (optimal_value 7 15)) (avgRevenue (res_aggregates res)))"
    using inst sim by (simp add: example_config_def)
  have "regret example_config overshoot_aggregates = Finite (optimal_value 7 15 - 400000)"
    using inst av by (simp add: example_config_def)
  moreover have "optimal_value 7 15 - 400000 < 0" using optimal_value_upper [of 7 15] by simp
  ultimately have r2: "\<exists>x. regret example_config overshoot_aggregates = Finite x \<and> x < 0"
    by blast
  have r3: "expected_revenue ?P 15 7 15 \<le> optimal_value 7 15"
    using inst h by simp
  from regret_benchmark [where I = 1 and T = 1]
  have "optimal_expected_revenue 1 1 = optimal_value 1 1" by blast
  then have r4: "optimal_expected_revenue 1 1 = 32000" by (simp only: optimal_value_1_1)
  from sim r1 av r2 h r3 r4 show ?thesis by blast
qed

section \<open>From a validated grid to a policy\<close>

text \<open>
  A grid that \<^verbatim>\<open>validateMatrix\<close> accepts is converted into a policy of the fixed
  shape, with every row of the length of the first and every cell one of the three
  prices: the policies of the theorems on traces are the ones the application builds.
\<close>

lemma convert_cell_canonical:
  assumes "isValidPriceLevel cell"
  shows "canonical_price (convert_cell cell)"
proof -
  from assms have "cell = ''LOW'' \<or> cell = ''MED'' \<or> cell = ''HIGH'' \<or> cell = ''30'' \<or> cell = ''40''
      \<or> cell = ''50'' \<or> cell = ''$30'' \<or> cell = ''$40'' \<or> cell = ''$50''"
    by (simp add: isValidPriceLevel_def validValues_def)
  then show ?thesis
    by (elim disjE) (simp_all add: convert_cell_def canonical_price_def)
qed

lemma convertToPriceMatrix_valid:
  assumes "valid (validateMatrix m)"
  shows "\<exists>P. convertToPriceMatrix m = Inr P \<and> rectangular P \<and> canonical P
             \<and> pm_I P = CONFIG_I \<and> pm_T P = CONFIG_T"
proof -
  from assms have len: "int (length m) = CONFIG_I"
    and rows: "list_all (\<lambda>row. int (length row) = CONFIG_T \<and> list_all isValidPriceLevel row) m"
    by (simp_all add: valid_validateMatrix)
  from len obtain r rest where m: "m = r # rest" by (cases m) (auto simp: CONFIG_I_def)
  let ?P = "\<lparr>pm_matrix = map (map convert_cell) m, pm_I = int (length m), pm_T = int (length r)\<rparr>"
  have new: "convertToPriceMatrix m = Inr ?P"
    using m by (simp add: convertToPriceMatrix_def PolicyMatrix_new_def)
  have T: "int (length r) = CONFIG_T" using rows m by simp
  have rect: "rectangular ?P"
    using rows T by (simp add: rectangular_def list_all_iff)
  have canon: "canonical ?P"
    using rows convert_cell_canonical by (simp add: canonical_def list_all_iff)
  from new rect canon len T show ?thesis by simp
qed

end
